theory Spec2Isabelle
  imports Complex_Main "HOL-Library.Word" "HOL-Library.Sublist" "HOL-Library.AList"
begin

section \<open>JavaScript strings\<close>

text \<open>
  A string is a \<^typ>\<open>string\<close>: the list of its UTF-16 code units, for the code units
  \<open>U+0000\<close> to \<open>U+00FF\<close> that a \<^typ>\<open>char\<close> holds (ASCII and the Latin-1
  supplement). \<^verbatim>\<open>s.length\<close> is \<^term>\<open>length s\<close>.
\<close>

text \<open>\<^verbatim>\<open>s.includes(p)\<close>: \<open>p\<close> occurs in \<open>s\<close> as a contiguous substring.\<close>

fun includes_js :: "string \<Rightarrow> string \<Rightarrow> bool" where
  "includes_js [] p = (p = [])"
| "includes_js (c # s) p = (prefix p (c # s) \<or> includes_js s p)"

text \<open>
  \<^verbatim>\<open>s.split(sep)\<close> for a separator of one character: the pieces between the
  separators, in order; a string without separator (the empty string too) gives one
  piece, so the result is never the empty array.
\<close>

fun js_split :: "string \<Rightarrow> char \<Rightarrow> string list" where
  "js_split [] sep = [[]]"
| "js_split (c # s) sep =
     (if c = sep then [] # js_split s sep
      else (case js_split s sep of [] \<Rightarrow> [[c]] | piece # pieces \<Rightarrow> (c # piece) # pieces))"

text \<open>
  \<^verbatim>\<open>s.toLowerCase()\<close>: on the code units below \<open>U+0100\<close> the letters \<open>A\<close> to \<open>Z\<close>
  and \<open>U+00C0\<close> to \<open>U+00DE\<close> (the multiplication sign \<open>U+00D7\<close> apart) move up
  by 32, every other code unit stays.
\<close>

definition toLowerChar :: "char \<Rightarrow> char" where
  "toLowerChar c =
     (let n = (of_char c :: nat)
      in if (65 \<le> n \<and> n \<le> 90) \<or> (192 \<le> n \<and> n \<le> 222 \<and> n \<noteq> 215)
         then char_of (n + 32) else c)"

definition toLowerCase :: "string \<Rightarrow> string" where
  "toLowerCase s = map toLowerChar s"

text \<open>
  \<^verbatim>\<open>pieces.join(separator)\<close> on an array of strings: the pieces with the separator
  between two neighbours.
\<close>

fun join_js :: "string list \<Rightarrow> string \<Rightarrow> string" where
  "join_js [] separator = []"
| "join_js [x] separator = x"
| "join_js (x # y # ys) separator = x @ separator @ join_js (y # ys) separator"

text \<open>
  The decimal digits of a natural number: what a template literal or
  \<^verbatim>\<open>Number.prototype.toString\<close> gives for a non-negative integer index.
\<close>

fun decimal :: "nat \<Rightarrow> string" where
  "decimal n =
     (if n < 10 then [char_of (48 + n)] else decimal (n div 10) @ [char_of (48 + n mod 10)])"

declare decimal.simps [simp del]

subsection \<open>Facts about the string functions\<close>

lemma includes_js_iff: "includes_js s p = (\<exists>pre suf. s = pre @ p @ suf)"
proof (induction s)
  case Nil
  then show ?case by auto
next
  case (Cons c s)
  show ?case
  proof
    assume "includes_js (c # s) p"
    then consider "prefix p (c # s)" | "includes_js s p" by auto
    then show "\<exists>pre suf. c # s = pre @ p @ suf"
    proof cases
      case 1
      then obtain suf where "c # s = p @ suf" by (auto simp: prefix_def)
      then have "c # s = [] @ p @ suf" by simp
      then show ?thesis by blast
    next
      case 2
      then obtain pre suf where "s = pre @ p @ suf" using Cons.IH by blast
      then have "c # s = (c # pre) @ p @ suf" by simp
      then show ?thesis by blast
    qed
  next
    assume "\<exists>pre suf. c # s = pre @ p @ suf"
    then obtain pre suf where e: "c # s = pre @ p @ suf" by blast
    show "includes_js (c # s) p"
    proof (cases pre)
      case Nil
      then have "prefix p (c # s)" using e by (simp add: prefix_def)
      then show ?thesis by simp
    next
      case (Cons a pre')
      then have "s = pre' @ p @ suf" using e by simp
      then show ?thesis using Cons.IH by auto
    qed
  qed
qed

lemma js_split_nonempty: "js_split s c \<noteq> []"
  by (induction s) (auto split: list.splits)

lemma js_split_hd: "hd (js_split s c) = takeWhile (\<lambda>x. x \<noteq> c) s"
  by (induction s) (auto split: list.splits simp: js_split_nonempty)

section \<open>Chunker: \<^verbatim>\<open>createChunks\<close> (scripts/ingest-docs.ts)\<close>

text \<open>
  \<^verbatim>\<open>String.prototype.slice(start, end)\<close>: a negative index counts from the end of the
  string, both indices are clamped to the string, and the result is empty when the
  clamped start is not before the clamped end.
\<close>

definition slice :: "'a list \<Rightarrow> int \<Rightarrow> int \<Rightarrow> 'a list" where
  "slice xs start end =
     (let len = int (length xs);
          from = (if start < 0 then max (len + start) 0 else min start len);
          to = (if end < 0 then max (len + end) 0 else min end len)
      in take (nat (to - from)) (drop (nat from) xs))"

text \<open>
  The \<^verbatim>\<open>while (startIndex < text.length)\<close> loop of \<^verbatim>\<open>createChunks\<close>. Nothing in the
  source bounds the number of iterations, so the loop is a partial function: the value
  \<open>None\<close> stands for a call that never returns. \<open>chunkSize\<close> and \<open>overlap\<close> are
  integers of either sign, as the source accepts them.
\<close>

partial_function (option) chunkLoop ::
  "'a list \<Rightarrow> int \<Rightarrow> int \<Rightarrow> int \<Rightarrow> 'a list list \<Rightarrow> 'a list list option" where
  "chunkLoop text chunkSize overlap startIndex chunks =
     (if startIndex < int (length text) then
        (let endIndex = min (startIndex + chunkSize) (int (length text));
             chunks' = chunks @ [slice text startIndex endIndex]
         in if endIndex \<ge> int (length text) then Some chunks'
            else chunkLoop text chunkSize overlap (startIndex + (chunkSize - overlap)) chunks')
      else Some chunks)"

declare chunkLoop.simps [code]

text \<open>
  \<^verbatim>\<open>createChunks(text, chunkSize, overlap)\<close>. The test \<^verbatim>\<open>!text\<close> holds exactly for the
  empty string. The text is a list of characters of any kind: the function never looks
  at them.
\<close>

definition createChunks :: "'a list \<Rightarrow> int \<Rightarrow> int \<Rightarrow> 'a list list option" where
  "createChunks text chunkSize overlap =
     (if text = [] \<or> int (length text) \<le> chunkSize then Some [text]
      else chunkLoop text chunkSize overlap 0 [])"

text \<open>
  The sliding windows as the specification describes them, for the comparison with the
  loop: a window of \<open>c\<close> characters at offset \<open>s\<close>, then the offset advances by \<open>d\<close>,
  and the first window that reaches the end of the text is the last one.
\<close>

function windows :: "'a list \<Rightarrow> nat \<Rightarrow> nat \<Rightarrow> nat \<Rightarrow> 'a list list" where
  "windows text c d s =
     (if length text \<le> s + c \<or> d = 0 then [take c (drop s text)]
      else take c (drop s text) # windows text c d (s + d))"
  by pat_completeness auto
termination
  by (relation "measure (\<lambda>(text, c, d, s). length text - s)") auto

declare windows.simps [simp del]

subsection \<open>The loop against the sliding windows\<close>

lemma slice_window_full:
  "length t \<le> s + c \<Longrightarrow> slice t (int s) (int (length t)) = take c (drop s t)"
  by (auto simp: slice_def Let_def min_def nat_diff_distrib' nat_add_distrib)

lemma slice_window_part:
  "s + c < length t \<Longrightarrow> slice t (int s) (int s + int c) = take c (drop s t)"
  by (auto simp: slice_def Let_def min_def nat_diff_distrib' nat_add_distrib)

lemma chunkLoop_windows:
  assumes "0 < d" "d \<le> c" "s < length t"
  shows "chunkLoop t (int c) (int c - int d) (int s) acc = Some (acc @ windows t c d s)"
  using assms
proof (induction t c d s arbitrary: acc rule: windows.induct)
  case (1 t c d s)
  show ?case
  proof (cases "length t \<le> s + c")
    case True
    then show ?thesis using "1.prems"
      by (subst chunkLoop.simps, subst windows.simps) (simp add: Let_def slice_window_full slice_window_part)
  next
    case False
    have step: "chunkLoop t (int c) (int c - int d) (int s) acc
        = chunkLoop t (int c) (int c - int d) (int (s + d)) (acc @ [take c (drop s t)])"
      using False "1.prems" by (subst chunkLoop.simps) (simp add: Let_def slice_window_full slice_window_part)
    have "s + d < length t" using False "1.prems" by arith
    then have "chunkLoop t (int c) (int c - int d) (int (s + d)) (acc @ [take c (drop s t)])
          = Some ((acc @ [take c (drop s t)]) @ windows t c d (s + d))"
      using "1.IH" False "1.prems" by simp
    then show ?thesis using step False "1.prems" by (subst windows.simps) simp
  qed
qed

lemma chunkLoop_returns:
  assumes "overlap < chunkSize"
  shows "\<exists>r. chunkLoop t chunkSize overlap start acc = Some r"
proof (induction "nat (int (length t) - start)" arbitrary: start acc rule: less_induct)
  case less
  show ?case
  proof (cases "start < int (length t) \<and> \<not> int (length t) \<le> min (start + chunkSize) (int (length t))")
    case True
    have "nat (int (length t) - (start + (chunkSize - overlap))) < nat (int (length t) - start)"
      using True assms by arith
    from less[OF this] show ?thesis using True
      by (subst chunkLoop.simps) (simp add: Let_def)
  next
    case False
    then show ?thesis by (subst chunkLoop.simps) (auto simp add: Let_def)
  qed
qed

lemma chunkLoop_diverges:
  assumes "chunkLoop t chunkSize overlap start acc = Some r"
  shows "\<not> (t \<noteq> [] \<and> chunkSize \<le> overlap \<and> start \<le> 0 \<and> chunkSize < int (length t))"
proof (rule chunkLoop.raw_induct[where P = "\<lambda>t chunkSize overlap start acc r.
      \<not> (t \<noteq> [] \<and> chunkSize \<le> overlap \<and> start \<le> 0 \<and> chunkSize < int (length t))", OF _ assms])
  fix f :: "'a list \<Rightarrow> int \<Rightarrow> int \<Rightarrow> int \<Rightarrow> 'a list list \<Rightarrow> 'a list list option"
    and t chunkSize overlap start acc r
  assume IH: "\<And>t chunkSize overlap start acc r. f t chunkSize overlap start acc = Some r \<Longrightarrow>
      \<not> (t \<noteq> [] \<and> chunkSize \<le> overlap \<and> start \<le> 0 \<and> chunkSize < int (length t))"
    and unfolded: "(if start < int (length t) then
        (let endIndex = min (start + chunkSize) (int (length t));
             chunks' = acc @ [slice t start endIndex]
         in if endIndex \<ge> int (length t) then Some chunks'
            else f t chunkSize overlap (start + (chunkSize - overlap)) chunks')
      else Some acc) = Some r"
  show "\<not> (t \<noteq> [] \<and> chunkSize \<le> overlap \<and> start \<le> 0 \<and> chunkSize < int (length t))"
  proof
    assume bad: "t \<noteq> [] \<and> chunkSize \<le> overlap \<and> start \<le> 0 \<and> chunkSize < int (length t)"
    then have pos: "start < int (length t)" by (cases t) auto
    have "f t chunkSize overlap (start + (chunkSize - overlap))
        (acc @ [slice t start (min (start + chunkSize) (int (length t)))]) = Some r"
      using unfolded bad pos by (simp add: Let_def split: if_splits)
    from IH[OF this] show False using bad by simp
  qed
qed

lemma windows_nonempty: "windows t c d s \<noteq> []"
  by (subst windows.simps) simp

lemma windows_nth:
  "i < length (windows t c d s) \<Longrightarrow> windows t c d s ! i = take c (drop (s + i * d) t)"
proof (induction t c d s arbitrary: i rule: windows.induct)
  case (1 t c d s)
  show ?case
  proof (cases "length t \<le> s + c \<or> d = 0")
    case True
    then have "windows t c d s = [take c (drop s t)]" by (subst windows.simps) simp
    then show ?thesis using "1.prems" by simp
  next
    case False
    then have eq: "windows t c d s = take c (drop s t) # windows t c d (s + d)"
      by (subst windows.simps) simp
    show ?thesis
    proof (cases i)
      case 0
      then show ?thesis using eq by simp
    next
      case (Suc j)
      then have "j < length (windows t c d (s + d))" using "1.prems" eq by simp
      from "1.IH"[OF False this] show ?thesis using eq Suc by (simp add: ac_simps)
    qed
  qed
qed

lemma windows_inner:
  "Suc i < length (windows t c d s) \<Longrightarrow> s + i * d + c < length t"
proof (induction t c d s arbitrary: i rule: windows.induct)
  case (1 t c d s)
  show ?case
  proof (cases "length t \<le> s + c \<or> d = 0")
    case True
    then have "windows t c d s = [take c (drop s t)]" by (subst windows.simps) simp
    then show ?thesis using "1.prems" by simp
  next
    case False
    then have eq: "windows t c d s = take c (drop s t) # windows t c d (s + d)"
      by (subst windows.simps) simp
    show ?thesis
    proof (cases i)
      case 0
      then show ?thesis using False by simp
    next
      case (Suc j)
      then have "Suc j < length (windows t c d (s + d))" using "1.prems" eq by simp
      from "1.IH"[OF False this] show ?thesis using Suc by (simp add: add.assoc add.commute)
    qed
  qed
qed

lemma windows_last:
  "0 < d \<Longrightarrow> length t \<le> s + (length (windows t c d s) - 1) * d + c"
proof (induction t c d s rule: windows.induct)
  case (1 t c d s)
  show ?case
  proof (cases "length t \<le> s + c \<or> d = 0")
    case True
    then have "windows t c d s = [take c (drop s t)]" by (subst windows.simps) simp
    then show ?thesis using True "1.prems" by simp
  next
    case False
    then have eq: "windows t c d s = take c (drop s t) # windows t c d (s + d)"
      by (subst windows.simps) simp
    obtain n where n: "length (windows t c d (s + d)) = Suc n"
      using windows_nonempty[of t c d "s + d"] by (cases "windows t c d (s + d)") auto
    from "1.IH"[OF False "1.prems"] show ?thesis using eq n by (simp add: add.assoc add.commute)
  qed
qed

lemma windows_rebuild:
  assumes "0 < d" "d \<le> c"
  shows "\<exists>w rest. windows t c d s = w # rest \<and> w = take c (drop s t) \<and>
           w @ concat (map (drop (c - d)) rest) = drop s t"
  using assms
proof (induction t c d s rule: windows.induct)
  case (1 t c d s)
  show ?case
  proof (cases "length t \<le> s + c \<or> d = 0")
    case True
    then have "windows t c d s = [take c (drop s t)]" by (subst windows.simps) simp
    then show ?thesis using True "1.prems" by simp
  next
    case False
    then have eq: "windows t c d s = take c (drop s t) # windows t c d (s + d)"
      by (subst windows.simps) simp
    from "1.IH"[OF False "1.prems"] obtain w rest where
      w: "windows t c d (s + d) = w # rest" "w = take c (drop (s + d) t)"
         "w @ concat (map (drop (c - d)) rest) = drop (s + d) t" by blast
    have len: "c - d \<le> length w" using w(2) False "1.prems" by simp
    have "drop (c - d) w @ concat (map (drop (c - d)) rest) = drop (c - d) (drop (s + d) t)"
      using w(3) len by (metis drop_append diff_is_0_eq drop_0)
    also have "\<dots> = drop c (drop s t)" using "1.prems" by (simp add: add.commute)
    finally have "take c (drop s t) @ concat (map (drop (c - d)) (w # rest))
        = take c (drop s t) @ drop c (drop s t)" by simp
    also have "\<dots> = drop s t" by (rule append_take_drop_id)
    finally show ?thesis using eq w(1) by simp
  qed
qed

subsection \<open>Chunk coverage\<close>

text \<open>
  Claim C1. For \<open>0 \<le> overlap < chunkSize\<close>, \<open>createChunks\<close> returns a non-empty list of
  chunks. A text no longer than \<open>chunkSize\<close> gives the single chunk that is the whole
  text (the empty text included). In every case chunk \<open>i\<close> is the slice of at most
  \<open>chunkSize\<close> characters at offset \<open>i * (chunkSize - overlap)\<close>; every chunk but
  the last lies inside the text and has exactly \<open>chunkSize\<close> characters, and the last one
  reaches the end of the text. Chunk 0 followed by every later chunk without its first
  \<open>overlap\<close> characters is the text again. A text of 1000 characters with
  \<open>chunkSize = 800\<close> and \<open>overlap = 200\<close> gives the two chunks \<open>[0, 800)\<close> and
  \<open>[600, 1000)\<close>.
\<close>

theorem createChunks_coverage:
  assumes "0 \<le> overlap" "overlap < chunkSize"
  shows "\<exists>chunks. createChunks t chunkSize overlap = Some chunks \<and> chunks \<noteq> [] \<and>
           (int (length t) \<le> chunkSize \<longrightarrow> chunks = [t]) \<and>
           (\<forall>i < length chunks.
              chunks ! i = take (nat chunkSize) (drop (i * nat (chunkSize - overlap)) t)) \<and>
           (\<forall>i. Suc i < length chunks \<longrightarrow>
              i * nat (chunkSize - overlap) + nat chunkSize < length t \<and>
              length (chunks ! i) = nat chunkSize) \<and>
           length t \<le> (length chunks - 1) * nat (chunkSize - overlap) + nat chunkSize \<and>
           hd chunks @ concat (map (drop (nat overlap)) (tl chunks)) = t \<and>
           (chunkSize = 800 \<and> overlap = 200 \<and> length t = 1000 \<longrightarrow>
              chunks = [take 800 t, drop 600 t])"
proof (cases "t = [] \<or> int (length t) \<le> chunkSize")
  case True
  then have "createChunks t chunkSize overlap = Some [t]" by (simp add: createChunks_def)
  moreover have "length t \<le> nat chunkSize" using True assms by auto
  ultimately show ?thesis by auto
next
  case False
  define c where "c = nat chunkSize"
  define d where "d = nat (chunkSize - overlap)"
  have cd: "0 < d" "d \<le> c" "chunkSize = int c" "overlap = int c - int d" "nat overlap = c - d"
    using assms by (auto simp: c_def d_def)
  have pos: "0 < length t" "c < length t" using False cd by auto
  let ?ws = "windows t c d 0"
  have run: "createChunks t chunkSize overlap = Some ?ws"
    using False chunkLoop_windows[OF cd(1,2) pos(1), of "[]"] cd by (simp add: createChunks_def)
  obtain w rest where w: "?ws = w # rest" "w @ concat (map (drop (c - d)) rest) = drop 0 t"
    using windows_rebuild[OF cd(1,2), of t 0] by blast
  have nth: "\<forall>i < length ?ws. ?ws ! i = take c (drop (i * d) t)"
    using windows_nth[of _ t c d 0] by simp
  have inner: "\<forall>i. Suc i < length ?ws \<longrightarrow> i * d + c < length t \<and> length (?ws ! i) = c"
  proof (intro allI impI)
    fix i assume i: "Suc i < length ?ws"
    then have "i * d + c < length t" using windows_inner[of i t c d 0] by simp
    moreover have "?ws ! i = take c (drop (i * d) t)" using nth i by simp
    ultimately show "i * d + c < length t \<and> length (?ws ! i) = c" by simp
  qed
  have last: "length t \<le> (length ?ws - 1) * d + c"
    using windows_last[OF cd(1), of t 0 c] by simp
  have scen: "chunkSize = 800 \<and> overlap = 200 \<and> length t = 1000 \<longrightarrow> ?ws = [take 800 t, drop 600 t]"
  proof
    assume h: "chunkSize = 800 \<and> overlap = 200 \<and> length t = 1000"
    then have "c = 800" "d = 600" by (simp_all add: c_def d_def)
    then show "?ws = [take 800 t, drop 600 t]" using h
      by (simp add: windows.simps[of t 800 600 0] windows.simps[of t 800 600 600])
  qed
  show ?thesis
    using run w nth inner last scen cd(3,4,5) False unfolding c_def[symmetric] d_def[symmetric]
    by (intro exI[of _ ?ws]) simp
qed

theorem createChunks_coverage_witness:
  "(0::int) \<le> 1 \<and> (1::int) < 4 \<and>
   createChunks ''abcdefghij'' 4 1 = Some [''abcd'', ''defg'', ''ghij''] \<and>
   ''abcd'' @ concat (map (drop (nat 1)) [''defg'', ''ghij'']) = ''abcdefghij'' \<and>
   createChunks ''abc'' 4 1 = Some [''abc'']"
proof -
  have h: "(0::int) \<le> 1" "(1::int) < 4" by simp_all
  have ev: "createChunks ''abcdefghij'' 4 1 = Some [''abcd'', ''defg'', ''ghij'']"
    by code_simp
  obtain chunks where c: "createChunks ''abcdefghij'' 4 1 = Some chunks"
    "hd chunks @ concat (map (drop (nat 1)) (tl chunks)) = ''abcdefghij''"
    using createChunks_coverage[OF h, of "''abcdefghij''"] by blast
  obtain chunks' where c': "createChunks ''abc'' 4 1 = Some chunks'"
    "int (length ''abc'') \<le> 4 \<longrightarrow> chunks' = [''abc'']"
    using createChunks_coverage[OF h, of "''abc''"] by blast
  from c ev have "chunks = [''abcd'', ''defg'', ''ghij'']" by simp
  with c(2) c' ev show ?thesis by simp
qed

subsection \<open>Termination\<close>

text \<open>
  Claim C5, as the code has it. The source neither rejects nor clamps a non-positive
  advance: \<open>createChunks\<close> returns exactly when the text is empty, or no longer than
  \<open>chunkSize\<close>, or \<open>overlap < chunkSize\<close>. For a text longer than \<open>chunkSize\<close> and
  \<open>overlap \<ge> chunkSize\<close> the start index never moves forward, the end index stays
  before the end of the text, and the loop never returns.
\<close>

theorem createChunks_returns_iff:
  "(createChunks t chunkSize overlap \<noteq> None) =
     (t = [] \<or> int (length t) \<le> chunkSize \<or> overlap < chunkSize)"
proof (cases "t = [] \<or> int (length t) \<le> chunkSize")
  case True
  then show ?thesis by (auto simp: createChunks_def)
next
  case False
  show ?thesis
  proof (cases "overlap < chunkSize")
    case True
    then show ?thesis using False chunkLoop_returns[OF True, of t 0 "[]"]
      by (auto simp: createChunks_def)
  next
    case nlt: False
    have "chunkLoop t chunkSize overlap 0 [] = None"
    proof (cases "chunkLoop t chunkSize overlap 0 []")
      case (Some r)
      from chunkLoop_diverges[OF this] show ?thesis using nlt False by simp
    qed simp
    then show ?thesis using False nlt by (simp add: createChunks_def)
  qed
qed

text \<open>
  A text of three characters with \<open>chunkSize = 2\<close> and \<open>overlap = 2\<close>: the advance is 0
  and the call does not return.
\<close>

theorem createChunks_nonpositive_advance_diverges: "createChunks ''abc'' 2 2 = None"
proof (cases "chunkLoop ''abc'' 2 2 0 []")
  case None
  then show ?thesis by (simp add: createChunks_def)
next
  case (Some r)
  from chunkLoop_diverges[OF this] show ?thesis by simp
qed

section \<open>Metadata normalizer: \<^verbatim>\<open>inferCategory\<close> and \<^verbatim>\<open>inferPriority\<close> (scripts/ingest-docs.ts)\<close>

text \<open>
  The two members of Node's \<^verbatim>\<open>path\<close> module that the functions use.
  \<^verbatim>\<open>path.relative(from, to)\<close> depends on the platform and on the working directory
  of the process, \<^verbatim>\<open>path.sep\<close> on the platform (\<open>/\<close> or \<open>\\\<close>): both are parameters.
\<close>

record node_path =
  relative :: "string \<Rightarrow> string \<Rightarrow> string"
  sep :: char

text \<open>
  \<^verbatim>\<open>inferCategory(filePath)\<close>: the chain of tests on the lower-cased path relative to
  \<^verbatim>\<open>docs\<close>, in the order of the source, then the first piece of the path.
\<close>

definition inferCategory :: "node_path \<Rightarrow> string \<Rightarrow> string" where
  "inferCategory path filePath =
     (let relativePath = toLowerCase (relative path ''docs'' filePath) in
      if includes_js relativePath ''architecture'' then ''architecture''
      else if includes_js relativePath ''chatbot'' then ''chatbot''
      else if includes_js relativePath ''design'' then ''design''
      else if includes_js relativePath ''implementation'' then ''implementation-plans''
      else if includes_js relativePath ''roadmap'' then ''roadmaps''
      else if includes_js relativePath ''research'' then ''research''
      else if includes_js relativePath ''testing'' then ''testing''
      else if includes_js relativePath ''audit'' then ''audits''
      else if includes_js relativePath ''eval'' then ''evaluations''
      else if includes_js relativePath ''css'' \<or> includes_js relativePath ''style'' then ''styling''
      else if includes_js relativePath ''animation'' then ''animation''
      else if includes_js relativePath ''migration'' then ''migrations''
      else if includes_js relativePath ''content'' then ''content''
      else if includes_js relativePath ''feature'' then ''features''
      else if includes_js relativePath ''_archive'' then ''archive''
      else (let dirs = js_split relativePath (sep path) in
            if length dirs > 0 then dirs ! 0 else ''general''))"

text \<open>\<^verbatim>\<open>inferPriority(filePath)\<close>, in the order of the source.\<close>

definition inferPriority :: "node_path \<Rightarrow> string \<Rightarrow> int" where
  "inferPriority path filePath =
     (let relativePath = toLowerCase (relative path ''docs'' filePath) in
      if includes_js relativePath ''claude.md'' then 100
      else if includes_js relativePath ''readme'' then 95
      else if includes_js relativePath ''current'' then 95
      else if includes_js relativePath ''quick-reference'' then 90
      else if includes_js relativePath ''implementation-plan'' then 85
      else if includes_js relativePath ''architecture'' then 80
      else if includes_js relativePath ''design'' then 75
      else if includes_js relativePath ''roadmap'' then 75
      else if includes_js relativePath ''testing'' then 70
      else if includes_js relativePath ''_archive'' then 30
      else if includes_js relativePath ''old'' then 35
      else if includes_js relativePath ''deprecated'' then 35
      else 60)"

text \<open>
  The specification's reading of the two functions: an ordered table of recognized
  substrings with the result of each row, and the result of the first row one of whose
  substrings occurs in the path.
\<close>

definition categoryRules :: "(string list \<times> string) list" where
  "categoryRules =
     [([''architecture''], ''architecture''), ([''chatbot''], ''chatbot''),
      ([''design''], ''design''), ([''implementation''], ''implementation-plans''),
      ([''roadmap''], ''roadmaps''), ([''research''], ''research''),
      ([''testing''], ''testing''), ([''audit''], ''audits''), ([''eval''], ''evaluations''),
      ([''css'', ''style''], ''styling''), ([''animation''], ''animation''),
      ([''migration''], ''migrations''), ([''content''], ''content''),
      ([''feature''], ''features''), ([''_archive''], ''archive'')]"

definition priorityRules :: "(string list \<times> int) list" where
  "priorityRules =
     [([''claude.md''], 100), ([''readme''], 95), ([''current''], 95),
      ([''quick-reference''], 90), ([''implementation-plan''], 85),
      ([''architecture''], 80), ([''design''], 75), ([''roadmap''], 75),
      ([''testing''], 70), ([''_archive''], 30), ([''old''], 35), ([''deprecated''], 35)]"

definition firstMatch :: "(string list \<times> 'a) list \<Rightarrow> string \<Rightarrow> 'a option" where
  "firstMatch rules s =
     map_option snd (find (\<lambda>(patterns, result). list_ex (includes_js s) patterns) rules)"

definition recognized :: "(string list \<times> 'a) list \<Rightarrow> string list" where
  "recognized rules = concat (map fst rules)"

text \<open>
  A path module for concrete runs: POSIX separators, and \<^verbatim>\<open>path.relative\<close> as it
  computes for two relative paths without \<open>.\<close> and \<open>..\<close> segments
  (\<^verbatim>\<open>path.relative('docs', 'docs/a/b.md')\<close> is \<^verbatim>\<open>a/b.md\<close>,
  \<^verbatim>\<open>path.relative('docs', 'src/a.md')\<close> is \<^verbatim>\<open>../src/a.md\<close>).
\<close>

definition posix_relative :: "string \<Rightarrow> string \<Rightarrow> string" where
  "posix_relative from to =
     (if to = from then [] else if prefix (from @ ''/'') to then drop (length from + 1) to
      else ''../'' @ to)"

definition posix :: node_path where
  "posix = \<lparr>relative = posix_relative, sep = CHR ''/''\<rparr>"

subsection \<open>The chains against the tables\<close>

lemma inferCategory_firstMatch:
  "inferCategory path filePath =
     (case firstMatch categoryRules (toLowerCase (relative path ''docs'' filePath)) of
        Some r \<Rightarrow> r
      | None \<Rightarrow> hd (js_split (toLowerCase (relative path ''docs'' filePath)) (sep path)))"
  using js_split_nonempty[of "toLowerCase (relative path ''docs'' filePath)" "sep path"]
  by (simp add: inferCategory_def firstMatch_def categoryRules_def Let_def hd_conv_nth)

lemma inferPriority_firstMatch:
  "inferPriority path filePath =
     (case firstMatch priorityRules (toLowerCase (relative path ''docs'' filePath)) of
        Some r \<Rightarrow> r
      | None \<Rightarrow> 60)"
  by (simp add: inferPriority_def firstMatch_def priorityRules_def Let_def)

lemma firstMatch_None:
  "(firstMatch rules s = None) = (\<forall>p \<in> set (recognized rules). \<not> includes_js s p)"
  by (induction rules) (auto simp: firstMatch_def recognized_def list_ex_iff)

lemma firstMatch_first:
  assumes "rules = before @ (patterns, r) # after"
    and "\<exists>p \<in> set patterns. includes_js s p"
    and "\<forall>p \<in> set (recognized before). \<not> includes_js s p"
  shows "firstMatch rules s = Some r"
  using assms(3) unfolding assms(1)
proof (induction before)
  case Nil
  then show ?case using assms(2) by (simp add: firstMatch_def list_ex_iff)
next
  case (Cons b before)
  then show ?case by (cases b) (auto simp: firstMatch_def recognized_def list_ex_iff)
qed



lemma inferPriority_default:
  assumes "\<forall>p \<in> set (recognized priorityRules). \<not> includes_js (toLowerCase (relative path ''docs'' filePath)) p"
  shows "inferPriority path filePath = 60"
proof -
  have "firstMatch priorityRules (toLowerCase (relative path ''docs'' filePath)) = None"
    using assms by (simp only: firstMatch_None)
  then show ?thesis by (simp only: inferPriority_firstMatch option.case)
qed

lemma inferCategory_default:
  assumes "\<forall>p \<in> set (recognized categoryRules). \<not> includes_js (toLowerCase (relative path ''docs'' filePath)) p"
  shows "inferCategory path filePath =
    takeWhile (\<lambda>c. c \<noteq> sep path) (toLowerCase (relative path ''docs'' filePath))"
proof -
  have "firstMatch categoryRules (toLowerCase (relative path ''docs'' filePath)) = None"
    using assms by (simp only: firstMatch_None)
  then show ?thesis by (simp only: inferCategory_firstMatch option.case js_split_hd)
qed

lemma inferPriority_first:
  assumes "priorityRules = before @ (patterns, r) # after"
    and "\<exists>p \<in> set patterns. includes_js (toLowerCase (relative path ''docs'' filePath)) p"
    and "\<forall>p \<in> set (recognized before). \<not> includes_js (toLowerCase (relative path ''docs'' filePath)) p"
  shows "inferPriority path filePath = r"
proof -
  have "firstMatch priorityRules (toLowerCase (relative path ''docs'' filePath)) = Some r"
    by (rule firstMatch_first[OF assms])
  then show ?thesis by (simp only: inferPriority_firstMatch option.case)
qed

lemma inferCategory_first:
  assumes "categoryRules = before @ (patterns, r) # after"
    and "\<exists>p \<in> set patterns. includes_js (toLowerCase (relative path ''docs'' filePath)) p"
    and "\<forall>p \<in> set (recognized before). \<not> includes_js (toLowerCase (relative path ''docs'' filePath)) p"
  shows "inferCategory path filePath = r"
proof -
  have "firstMatch categoryRules (toLowerCase (relative path ''docs'' filePath)) = Some r"
    by (rule firstMatch_first[OF assms])
  then show ?thesis by (simp only: inferCategory_firstMatch option.case)
qed

lemma rel_guides: "toLowerCase (relative posix ''docs'' ''docs/guides/setup.md'') = ''guides/setup.md''"
  by code_simp

lemma rel_design:
  "toLowerCase (relative posix ''docs'' ''docs/Design/CSS-Architecture.md'') = ''design/css-architecture.md''"
  by code_simp

subsection \<open>Defaults and first match\<close>

text \<open>
  Claim C6, as the code has it. With \<open>rel\<close> the lower-cased path relative to
  \<^verbatim>\<open>docs\<close>: when \<open>rel\<close> contains none of the recognized priority substrings,
  \<open>inferPriority\<close> returns 60; when \<open>rel\<close> contains none of the recognized category
  substrings and has a directory level, \<open>inferCategory\<close> returns the first directory
  of \<open>rel\<close> (the source checks the first directory level before its default); and in
  both functions the first row of the fixed order that matches decides the result,
  whatever later rows match.
\<close>

theorem infer_defaults_first_match:
  fixes path :: node_path and filePath :: string
  defines "rel \<equiv> toLowerCase (relative path ''docs'' filePath)"
  shows "((\<forall>p \<in> set (recognized priorityRules). \<not> includes_js rel p) \<longrightarrow>
            inferPriority path filePath = 60) \<and>
         ((\<forall>p \<in> set (recognized categoryRules). \<not> includes_js rel p) \<and> sep path \<in> set rel \<longrightarrow>
            inferCategory path filePath = takeWhile (\<lambda>c. c \<noteq> sep path) rel) \<and>
         (\<forall>before patterns r after.
            priorityRules = before @ (patterns, r) # after \<and>
            (\<exists>p \<in> set patterns. includes_js rel p) \<and>
            (\<forall>p \<in> set (recognized before). \<not> includes_js rel p) \<longrightarrow>
            inferPriority path filePath = r) \<and>
         (\<forall>before patterns r after.
            categoryRules = before @ (patterns, r) # after \<and>
            (\<exists>p \<in> set patterns. includes_js rel p) \<and>
            (\<forall>p \<in> set (recognized before). \<not> includes_js rel p) \<longrightarrow>
            inferCategory path filePath = r)"
  unfolding rel_def
proof (intro conjI allI impI)
  assume "\<forall>p \<in> set (recognized priorityRules).
      \<not> includes_js (toLowerCase (relative path ''docs'' filePath)) p"
  then show "inferPriority path filePath = 60" by (rule inferPriority_default)
next
  assume "(\<forall>p \<in> set (recognized categoryRules).
      \<not> includes_js (toLowerCase (relative path ''docs'' filePath)) p) \<and>
      sep path \<in> set (toLowerCase (relative path ''docs'' filePath))"
  then show "inferCategory path filePath =
      takeWhile (\<lambda>c. c \<noteq> sep path) (toLowerCase (relative path ''docs'' filePath))"
    by (intro inferCategory_default) (rule conjunct1)
next
  fix before patterns r after
  assume h: "priorityRules = before @ (patterns, r) # after \<and>
      (\<exists>p \<in> set patterns. includes_js (toLowerCase (relative path ''docs'' filePath)) p) \<and>
      (\<forall>p \<in> set (recognized before). \<not> includes_js (toLowerCase (relative path ''docs'' filePath)) p)"
  show "inferPriority path filePath = r"
    by (rule inferPriority_first[OF h[THEN conjunct1] h[THEN conjunct2, THEN conjunct1]
          h[THEN conjunct2, THEN conjunct2]])
next
  fix before patterns r after
  assume h: "categoryRules = before @ (patterns, r) # after \<and>
      (\<exists>p \<in> set patterns. includes_js (toLowerCase (relative path ''docs'' filePath)) p) \<and>
      (\<forall>p \<in> set (recognized before). \<not> includes_js (toLowerCase (relative path ''docs'' filePath)) p)"
  show "inferCategory path filePath = r"
    by (rule inferCategory_first[OF h[THEN conjunct1] h[THEN conjunct2, THEN conjunct1]
          h[THEN conjunct2, THEN conjunct2]])
qed

theorem infer_defaults_first_match_witness:
  "list_all (\<lambda>p. \<not> includes_js ''guides/setup.md'' p) (recognized priorityRules) \<and>
   inferPriority posix ''docs/guides/setup.md'' = 60 \<and>
   list_all (\<lambda>p. \<not> includes_js ''guides/setup.md'' p) (recognized categoryRules) \<and>
   sep posix \<in> set ''guides/setup.md'' \<and>
   inferCategory posix ''docs/guides/setup.md'' = ''guides'' \<and>
   priorityRules = take 5 priorityRules @ ([''architecture''], 80) # drop 6 priorityRules \<and>
   includes_js ''design/css-architecture.md'' ''architecture'' \<and>
   includes_js ''design/css-architecture.md'' ''design'' \<and>
   list_all (\<lambda>p. \<not> includes_js ''design/css-architecture.md'' p) (recognized (take 5 priorityRules)) \<and>
   inferPriority posix ''docs/Design/CSS-Architecture.md'' = 80 \<and>
   categoryRules = [] @ ([''architecture''], ''architecture'') # drop 1 categoryRules \<and>
   inferCategory posix ''docs/Design/CSS-Architecture.md'' = ''architecture''"
proof -
  note g = infer_defaults_first_match[of posix "''docs/guides/setup.md''", unfolded rel_guides]
  note d = infer_defaults_first_match[of posix "''docs/Design/CSS-Architecture.md''", unfolded rel_design]
  have np: "list_all (\<lambda>p. \<not> includes_js ''guides/setup.md'' p) (recognized priorityRules)"
    by (simp add: recognized_def priorityRules_def)
  have nc: "list_all (\<lambda>p. \<not> includes_js ''guides/setup.md'' p) (recognized categoryRules)"
    by (simp add: recognized_def categoryRules_def)
  have sp: "sep posix \<in> set ''guides/setup.md''" by (simp add: posix_def)
  have tw: "takeWhile (\<lambda>c. c \<noteq> sep posix) ''guides/setup.md'' = ''guides''" by (simp add: posix_def)
  have p60: "inferPriority posix ''docs/guides/setup.md'' = 60"
    using g np by (simp add: list_all_iff)
  have cg: "inferCategory posix ''docs/guides/setup.md'' = ''guides''"
    using g nc sp tw by (simp add: list_all_iff)
  have pr: "priorityRules = take 5 priorityRules @ ([''architecture''], 80) # drop 6 priorityRules"
    by (simp add: priorityRules_def)
  have ia: "includes_js ''design/css-architecture.md'' ''architecture''" by simp
  have idd: "includes_js ''design/css-architecture.md'' ''design''" by simp
  have nb: "list_all (\<lambda>p. \<not> includes_js ''design/css-architecture.md'' p) (recognized (take 5 priorityRules))"
    by (simp add: recognized_def priorityRules_def)
  have p80: "inferPriority posix ''docs/Design/CSS-Architecture.md'' = 80"
  proof (rule d[THEN conjunct2, THEN conjunct2, THEN conjunct1, rule_format,
        of "take 5 priorityRules" "[''architecture'']" 80 "drop 6 priorityRules"], intro conjI)
    show "priorityRules = take 5 priorityRules @ ([''architecture''], 80) # drop 6 priorityRules"
      by (rule pr)
    show "\<exists>p \<in> set [''architecture'']. includes_js ''design/css-architecture.md'' p"
      using ia by simp
    show "\<forall>p \<in> set (recognized (take 5 priorityRules)). \<not> includes_js ''design/css-architecture.md'' p"
      using nb by (simp only: list_all_iff)
  qed
  have cr: "categoryRules = [] @ ([''architecture''], ''architecture'') # drop 1 categoryRules"
    by (simp add: categoryRules_def)
  have ca: "inferCategory posix ''docs/Design/CSS-Architecture.md'' = ''architecture''"
  proof (rule d[THEN conjunct2, THEN conjunct2, THEN conjunct2, rule_format,
        of "[]" "[''architecture'']" "''architecture''" "drop 1 categoryRules"], intro conjI)
    show "categoryRules = [] @ ([''architecture''], ''architecture'') # drop 1 categoryRules"
      by (rule cr)
    show "\<exists>p \<in> set [''architecture'']. includes_js ''design/css-architecture.md'' p"
      using ia by simp
    show "\<forall>p \<in> set (recognized []). \<not> includes_js ''design/css-architecture.md'' p"
      by (simp add: recognized_def)
  qed
  show ?thesis by (intro conjI np p60 nc sp cg pr ia idd nb p80 cr ca)
qed

text \<open>
  \<^verbatim>\<open>docs/guides/setup.md\<close> contains no recognized category substring, and its category
  is \<^verbatim>\<open>guides\<close>, not \<^verbatim>\<open>general\<close>.
\<close>

theorem inferCategory_general_counterexample:
  "list_all (\<lambda>p. \<not> includes_js (toLowerCase (relative posix ''docs'' ''docs/guides/setup.md'')) p)
     (recognized categoryRules) \<and>
   inferCategory posix ''docs/guides/setup.md'' = ''guides'' \<and>
   inferCategory posix ''docs/guides/setup.md'' \<noteq> ''general''"
  by code_simp

section \<open>JavaScript values in metadata\<close>

text \<open>
  \<^verbatim>\<open>DocumentMetadata\<close> maps string keys to values of any kind
  (\<^verbatim>\<open>[key: string]: any\<close>). The values of the model are the ones its documented
  fields, a parsed front matter and a parsed line of JSON hold: \<^verbatim>\<open>null\<close>,
  \<^verbatim>\<open>undefined\<close>, strings, numbers, booleans, arrays, \<^verbatim>\<open>Date\<close> objects and plain
  nested objects; functions, symbols and big integers are not among them. A
  \<^verbatim>\<open>Date\<close> holds a time value in milliseconds since the epoch, or none: the
  \<^verbatim>\<open>Invalid Date\<close> that \<^verbatim>\<open>new Date('x')\<close> builds. A number is the real value of a
  finite double; \<^verbatim>\<open>NaN\<close> and the infinities, which JSON cannot write, are not among
  the values. An object is the list of its own enumerable properties in the order of
  \<^verbatim>\<open>Object.entries\<close>, each key once.
\<close>

datatype jsdate = Date int | InvalidDate

datatype jsvalue =
    JNull
  | JUndefined
  | JString string
  | JNumber real
  | JBoolean bool
  | JArray "jsvalue list"
  | JDate jsdate
  | JObject "(string \<times> jsvalue) list"

type_synonym js_object = "(string \<times> jsvalue) list"

text \<open>
  What the language and its engine fix is a parameter of the model. How numbers and
  dates print: \<^verbatim>\<open>Date.prototype.toString\<close> depends on the time zone of the process, and
  \<^verbatim>\<open>toISOString\<close> is applied to valid dates only, since on an invalid one it throws
  \<^verbatim>\<open>RangeError\<close>. The arithmetic of doubles: \<open>difference f x y\<close> is \<^verbatim>\<open>x - y\<close>, the
  exact difference rounded to the nearest double. And \<open>nativeText f name\<close> is the
  string that the built-in function \<^verbatim>\<open>Object.prototype[name]\<close> converts to, such as
  \<^verbatim>\<open>function toString() { [native code] }\<close>.
\<close>

record js_format =
  numberToString :: "real \<Rightarrow> string"
  dateToString :: "int \<Rightarrow> string"
  toISOString :: "int \<Rightarrow> string"
  difference :: "real \<Rightarrow> real \<Rightarrow> real"
  nativeText :: "string \<Rightarrow> string"

text \<open>
  \<^verbatim>\<open>String(v)\<close>, and \<^verbatim>\<open>Array.prototype.join\<close>: an element that is \<^verbatim>\<open>null\<close> or
  \<^verbatim>\<open>undefined\<close> joins as the empty string, any other element as its string.
\<close>

fun ToString :: "js_format \<Rightarrow> jsvalue \<Rightarrow> string" where
  "ToString f JNull = ''null''"
| "ToString f JUndefined = ''undefined''"
| "ToString f (JString s) = s"
| "ToString f (JNumber n) = numberToString f n"
| "ToString f (JBoolean b) = (if b then ''true'' else ''false'')"
| "ToString f (JArray xs) =
     join_js (map (\<lambda>x. if x = JNull \<or> x = JUndefined then [] else ToString f x) xs) '',''"
| "ToString f (JDate (Date t)) = dateToString f t"
| "ToString f (JDate InvalidDate) = ''Invalid Date''"
| "ToString f (JObject ps) = ''[object Object]''"

definition array_join :: "js_format \<Rightarrow> jsvalue list \<Rightarrow> string \<Rightarrow> string" where
  "array_join f xs separator =
     join_js (map (\<lambda>x. if x = JNull \<or> x = JUndefined then [] else ToString f x) xs) separator"

text \<open>The errors a call can throw.\<close>

datatype js_error =
    RangeError
  | SyntaxError
  | Error string
  | BackendError
  | EmbeddingError

text \<open>
  The parameters for concrete runs: non-negative integers print in decimal, and the
  epoch (time value 0) in UTC; the runs below print no other number and no other date.
  They subtract only doubles whose exact difference is a double, so that no rounding
  takes place. The built-in functions print as V8 prints them.
\<close>

definition utc_format :: js_format where
  "utc_format =
     \<lparr>numberToString = (\<lambda>x. decimal (nat \<lfloor>x\<rfloor>)),
      dateToString = (\<lambda>t. ''Thu Jan 01 1970 00:00:00 GMT+0000 (Coordinated Universal Time)''),
      toISOString = (\<lambda>t. ''1970-01-01T00:00:00.000Z''),
      difference = (\<lambda>x y. x - y),
      nativeText = (\<lambda>name. ''function '' @ (if name = ''constructor'' then ''Object'' else name)
                              @ ''() { [native code] }'')\<rparr>"

section \<open>Metadata normalizer: \<^verbatim>\<open>sanitizeMetadata\<close> (src/lib/client.ts)\<close>

text \<open>
  The loop \<^verbatim>\<open>for (const [key, value] of Object.entries(metadata))\<close>, with the object
  \<^verbatim>\<open>sanitized\<close> it fills, which starts as the plain object \<^verbatim>\<open>{}\<close>. An assignment
  \<^verbatim>\<open>sanitized[key] = v\<close> creates or overwrites the own property \<^verbatim>\<open>key\<close>, for every
  key but \<^verbatim>\<open>__proto__\<close>: that name is an accessor of \<^verbatim>\<open>Object.prototype\<close>, so the
  assignment calls its setter, and the setter ignores a value that is neither an object
  nor \<^verbatim>\<open>null\<close>. Every value the loop assigns is a string, a number or a boolean, so an
  assignment to \<^verbatim>\<open>__proto__\<close> changes nothing. The call \<^verbatim>\<open>value.toISOString()\<close>
  throws on an invalid date, and nothing in the function catches it.
\<close>

definition assign :: "(string \<times> 'a) list \<Rightarrow> string \<Rightarrow> 'a \<Rightarrow> (string \<times> 'a) list" where
  "assign obj key v = (if key = ''__proto__'' then obj else AList.update key v obj)"

fun sanitizeLoop :: "js_format \<Rightarrow> (string \<times> jsvalue) list \<Rightarrow> js_object \<Rightarrow> js_error + js_object" where
  "sanitizeLoop f [] sanitized = Inr sanitized"
| "sanitizeLoop f ((key, value) # entries) sanitized =
     (case value of
        JNull \<Rightarrow> sanitizeLoop f entries sanitized
      | JUndefined \<Rightarrow> sanitizeLoop f entries sanitized
      | JArray xs \<Rightarrow>
          sanitizeLoop f entries (assign sanitized key (JString (array_join f xs '','')))
      | JDate d \<Rightarrow>
          (case d of
             InvalidDate \<Rightarrow> Inl RangeError
           | Date t \<Rightarrow> sanitizeLoop f entries (assign sanitized key (JString (toISOString f t))))
      | JObject ps \<Rightarrow> sanitizeLoop f entries sanitized
      | _ \<Rightarrow> sanitizeLoop f entries (assign sanitized key value))"

definition sanitizeMetadata :: "js_format \<Rightarrow> js_object \<Rightarrow> js_error + js_object" where
  "sanitizeMetadata f metadata = sanitizeLoop f metadata []"

text \<open>
  The specification's flattening of one value: \<open>None\<close> for a value that is dropped.
\<close>

fun flattened :: "js_format \<Rightarrow> jsvalue \<Rightarrow> jsvalue option" where
  "flattened f JNull = None"
| "flattened f JUndefined = None"
| "flattened f (JArray xs) = Some (JString (array_join f xs '',''))"
| "flattened f (JDate (Date t)) = Some (JString (toISOString f t))"
| "flattened f (JDate InvalidDate) = None"
| "flattened f (JObject ps) = None"
| "flattened f v = Some v"

definition isScalar :: "jsvalue \<Rightarrow> bool" where
  "isScalar v = (case v of JString s \<Rightarrow> True | JNumber n \<Rightarrow> True | JBoolean b \<Rightarrow> True | _ \<Rightarrow> False)"

definition sampleMetadata :: js_object where
  "sampleMetadata =
     [(''source'', JString ''docs''), (''tags'', JArray [JString ''a'', JString ''b'']),
      (''frontmatter'', JObject [(''author'', JString ''x'')]), (''priority'', JNumber 60),
      (''draft'', JBoolean False), (''category'', JNull), (''title'', JUndefined),
      (''lastModified'', JDate (Date 0))]"

text \<open>
  Metadata as \<^verbatim>\<open>JSON.parse\<close> builds it from
  \<^verbatim>\<open>{"__proto__":"x","source":"docs"}\<close>: the key \<^verbatim>\<open>__proto__\<close> is an own property.
\<close>

definition protoMetadata :: js_object where
  "protoMetadata = [(''__proto__'', JString ''x''), (''source'', JString ''docs'')]"

subsection \<open>The loop against the flattening\<close>

lemma sanitizeLoop_step:
  "v \<noteq> JDate InvalidDate \<Longrightarrow>
   sanitizeLoop f ((k, v) # entries) acc =
     sanitizeLoop f entries (case flattened f v of None \<Rightarrow> acc | Some v' \<Rightarrow> assign acc k v')"
  by (cases v) (auto split: jsdate.splits)

lemma sanitizeLoop_invalid:
  "JDate InvalidDate \<in> snd ` set entries \<Longrightarrow> sanitizeLoop f entries acc = Inl RangeError"
proof (induction entries arbitrary: acc)
  case Nil
  then show ?case by simp
next
  case (Cons e entries)
  obtain k v where e: "e = (k, v)" by (cases e)
  show ?case
  proof (cases "v = JDate InvalidDate")
    case True
    then show ?thesis using e by simp
  next
    case False
    then have "JDate InvalidDate \<in> snd ` set entries" using Cons.prems e by auto
    then show ?thesis unfolding e sanitizeLoop_step[OF False] by (rule Cons.IH)
  qed
qed

lemma distinct_assign: "distinct (map fst acc) \<Longrightarrow> distinct (map fst (assign acc k v))"
  by (simp add: assign_def distinct_update)

lemma map_of_assign:
  "map_of (assign acc k v) key =
     (if key = k \<and> k \<noteq> ''__proto__'' then Some v else map_of acc key)"
  by (simp add: assign_def update_conv')

lemma sanitizeLoop_valid:
  assumes "distinct (map fst entries)" "JDate InvalidDate \<notin> snd ` set entries"
    "distinct (map fst acc)"
  shows "\<exists>s. sanitizeLoop f entries acc = Inr s \<and> distinct (map fst s) \<and>
           (\<forall>key. map_of s key =
              (case map_of entries key of
                 None \<Rightarrow> map_of acc key
               | Some v \<Rightarrow>
                   (case flattened f v of
                      None \<Rightarrow> map_of acc key
                    | Some v' \<Rightarrow> if key = ''__proto__'' then map_of acc key else Some v')))"
  using assms
proof (induction entries arbitrary: acc)
  case Nil
  then show ?case by simp
next
  case (Cons e entries)
  obtain k v where e: "e = (k, v)" by (cases e)
  define acc' where "acc' = (case flattened f v of None \<Rightarrow> acc | Some v' \<Rightarrow> assign acc k v')"
  have v: "v \<noteq> JDate InvalidDate" using Cons.prems(2) e by force
  have d': "distinct (map fst acc')"
    using Cons.prems(3) by (simp add: acc'_def distinct_assign split: option.splits)
  have "distinct (map fst entries)" "JDate InvalidDate \<notin> snd ` set entries"
    using Cons.prems e by auto
  from Cons.IH[OF this d'] obtain s where s: "sanitizeLoop f entries acc' = Inr s"
    "distinct (map fst s)"
    "\<And>key. map_of s key =
              (case map_of entries key of
                 None \<Rightarrow> map_of acc' key
               | Some v \<Rightarrow>
                   (case flattened f v of
                      None \<Rightarrow> map_of acc' key
                    | Some v' \<Rightarrow> if key = ''__proto__'' then map_of acc' key else Some v'))"
    by blast
  have run: "sanitizeLoop f (e # entries) acc = Inr s"
    unfolding e sanitizeLoop_step[OF v] using s(1) by (simp only: acc'_def)
  have k: "map_of entries k = None" using Cons.prems(1) e by (simp add: map_of_eq_None_iff)
  have other: "\<And>key. key \<noteq> k \<Longrightarrow> map_of acc' key = map_of acc key"
    by (simp add: acc'_def map_of_assign split: option.splits)
  have self: "map_of acc' k =
      (case flattened f v of
         None \<Rightarrow> map_of acc k
       | Some v' \<Rightarrow> if k = ''__proto__'' then map_of acc k else Some v')"
    by (simp add: acc'_def map_of_assign split: option.splits)
  have "map_of s key =
          (case map_of (e # entries) key of
             None \<Rightarrow> map_of acc key
           | Some v \<Rightarrow>
               (case flattened f v of
                  None \<Rightarrow> map_of acc key
                | Some v' \<Rightarrow> if key = ''__proto__'' then map_of acc key else Some v'))" for key
  proof (cases "key = k")
    case True
    show ?thesis unfolding True using s(3)[of k] k self e by simp
  next
    case False
    have "map_of s key =
          (case map_of entries key of
             None \<Rightarrow> map_of acc key
           | Some v \<Rightarrow>
               (case flattened f v of
                  None \<Rightarrow> map_of acc key
                | Some v' \<Rightarrow> if key = ''__proto__'' then map_of acc key else Some v'))"
      using s(3)[of key] unfolding other[OF False] .
    then show ?thesis using False e by simp
  qed
  then show ?case using run s(2) by blast
qed

lemma sampleMetadata_run:
  "sanitizeMetadata utc_format sampleMetadata =
     Inr [(''source'', JString ''docs''), (''tags'', JString ''a,b''), (''priority'', JNumber 60),
          (''draft'', JBoolean False), (''lastModified'', JString ''1970-01-01T00:00:00.000Z'')]"
  by (simp add: sanitizeMetadata_def sampleMetadata_def utc_format_def array_join_def assign_def)

lemma protoMetadata_run:
  "sanitizeMetadata utc_format protoMetadata = Inr [(''source'', JString ''docs'')]"
  by (simp add: sanitizeMetadata_def protoMetadata_def assign_def)

subsection \<open>Metadata flattening\<close>

text \<open>
  Claim C4, as the code has it. For a metadata object none of whose values is an
  invalid \<^verbatim>\<open>Date\<close>, \<open>sanitizeMetadata\<close> returns an object in which a key is absent
  when it is absent from the input or holds \<^verbatim>\<open>null\<close>, \<^verbatim>\<open>undefined\<close> or a nested
  object there; a key other than \<^verbatim>\<open>__proto__\<close> holds the comma-joined string for an
  array, the ISO timestamp for a date, and the same value for a string, a number or a
  boolean; and the key \<^verbatim>\<open>__proto__\<close> is absent whatever the input holds under it.
  \<^verbatim>\<open>["a","b"]\<close> joins to \<^verbatim>\<open>a,b\<close>. When a value is an invalid \<^verbatim>\<open>Date\<close> the call
  throws \<^verbatim>\<open>RangeError\<close> and returns no object.
\<close>

theorem sanitizeMetadata_flattens:
  assumes "distinct (map fst metadata)"
  shows "(JDate InvalidDate \<in> snd ` set metadata \<longrightarrow> sanitizeMetadata f metadata = Inl RangeError) \<and>
         (JDate InvalidDate \<notin> snd ` set metadata \<longrightarrow>
            (\<exists>sanitized. sanitizeMetadata f metadata = Inr sanitized \<and>
               distinct (map fst sanitized) \<and>
               (\<forall>key. map_of metadata key = None \<longrightarrow> map_of sanitized key = None) \<and>
               (\<forall>key. map_of metadata key = Some JNull \<or> map_of metadata key = Some JUndefined \<longrightarrow>
                  map_of sanitized key = None) \<and>
               (\<forall>key xs. key \<noteq> ''__proto__'' \<and> map_of metadata key = Some (JArray xs) \<longrightarrow>
                  map_of sanitized key = Some (JString (array_join f xs '',''))) \<and>
               (\<forall>key t. key \<noteq> ''__proto__'' \<and> map_of metadata key = Some (JDate (Date t)) \<longrightarrow>
                  map_of sanitized key = Some (JString (toISOString f t))) \<and>
               (\<forall>key ps. map_of metadata key = Some (JObject ps) \<longrightarrow>
                  map_of sanitized key = None) \<and>
               (\<forall>key v. key \<noteq> ''__proto__'' \<and> map_of metadata key = Some v \<and> isScalar v \<longrightarrow>
                  map_of sanitized key = Some v) \<and>
               map_of sanitized ''__proto__'' = None)) \<and>
         array_join f [JString ''a'', JString ''b''] '','' = ''a,b''"
proof (intro conjI impI)
  assume "JDate InvalidDate \<in> snd ` set metadata"
  then show "sanitizeMetadata f metadata = Inl RangeError"
    by (simp only: sanitizeMetadata_def sanitizeLoop_invalid)
next
  assume "JDate InvalidDate \<notin> snd ` set metadata"
  from sanitizeLoop_valid[OF assms this, of "[]" f]
  obtain s where s0: "sanitizeLoop f metadata [] = Inr s" "distinct (map fst s)"
    "\<forall>key. map_of s key =
        (case map_of metadata key of
           None \<Rightarrow> map_of [] key
         | Some v \<Rightarrow>
             (case flattened f v of
                None \<Rightarrow> map_of [] key
              | Some v' \<Rightarrow> if key = ''__proto__'' then map_of [] key else Some v'))"
    by auto
  have s: "sanitizeMetadata f metadata = Inr s" "distinct (map fst s)"
    using s0 by (simp_all add: sanitizeMetadata_def)
  have proto: "map_of s ''__proto__'' = None"
    using s0(3) by (simp split: option.splits)
  have rest: "map_of s key = (case map_of metadata key of None \<Rightarrow> None | Some v \<Rightarrow> flattened f v)"
    if "key \<noteq> ''__proto__''" for key
    using s0(3) that by (simp split: option.splits)
  have dropped: "map_of s key = None"
    if "map_of metadata key = None \<or> (\<exists>v. map_of metadata key = Some v \<and> flattened f v = None)" for key
    using s0(3) that by (auto split: option.splits)
  have scalar: "map_of s key = Some v"
    if "key \<noteq> ''__proto__'' \<and> map_of metadata key = Some v \<and> isScalar v" for key v
    using that rest[of key] by (cases v) (simp_all add: isScalar_def)
  show "\<exists>sanitized. sanitizeMetadata f metadata = Inr sanitized \<and>
               distinct (map fst sanitized) \<and>
               (\<forall>key. map_of metadata key = None \<longrightarrow> map_of sanitized key = None) \<and>
               (\<forall>key. map_of metadata key = Some JNull \<or> map_of metadata key = Some JUndefined \<longrightarrow>
                  map_of sanitized key = None) \<and>
               (\<forall>key xs. key \<noteq> ''__proto__'' \<and> map_of metadata key = Some (JArray xs) \<longrightarrow>
                  map_of sanitized key = Some (JString (array_join f xs '',''))) \<and>
               (\<forall>key t. key \<noteq> ''__proto__'' \<and> map_of metadata key = Some (JDate (Date t)) \<longrightarrow>
                  map_of sanitized key = Some (JString (toISOString f t))) \<and>
               (\<forall>key ps. map_of metadata key = Some (JObject ps) \<longrightarrow>
                  map_of sanitized key = None) \<and>
               (\<forall>key v. key \<noteq> ''__proto__'' \<and> map_of metadata key = Some v \<and> isScalar v \<longrightarrow>
                  map_of sanitized key = Some v) \<and>
               map_of sanitized ''__proto__'' = None"
  proof (intro exI[of _ s] conjI allI impI)
    show "sanitizeMetadata f metadata = Inr s" by (rule s(1))
    show "distinct (map fst s)" by (rule s(2))
    show "map_of s ''__proto__'' = None" by (rule proto)
  next
    fix key assume "map_of metadata key = None"
    then show "map_of s key = None" using dropped[of key] by simp
  next
    fix key assume "map_of metadata key = Some JNull \<or> map_of metadata key = Some JUndefined"
    then show "map_of s key = None" using dropped[of key] by auto
  next
    fix key xs assume "key \<noteq> ''__proto__'' \<and> map_of metadata key = Some (JArray xs)"
    then show "map_of s key = Some (JString (array_join f xs '',''))" using rest[of key] by simp
  next
    fix key t assume "key \<noteq> ''__proto__'' \<and> map_of metadata key = Some (JDate (Date t))"
    then show "map_of s key = Some (JString (toISOString f t))" using rest[of key] by simp
  next
    fix key ps assume "map_of metadata key = Some (JObject ps)"
    then show "map_of s key = None" using dropped[of key] by simp
  next
    fix key v assume "key \<noteq> ''__proto__'' \<and> map_of metadata key = Some v \<and> isScalar v"
    then show "map_of s key = Some v" by (rule scalar)
  qed
next
  show "array_join f [JString ''a'', JString ''b''] '','' = ''a,b''"
    by (simp add: array_join_def)
qed

theorem sanitizeMetadata_flattens_witness:
  "distinct (map fst sampleMetadata) \<and> JDate InvalidDate \<notin> snd ` set sampleMetadata \<and>
   (\<exists>sanitized. sanitizeMetadata utc_format sampleMetadata = Inr sanitized \<and>
      map_of sanitized ''tags'' = Some (JString ''a,b'') \<and>
      map_of sanitized ''frontmatter'' = None \<and>
      map_of sanitized ''category'' = None \<and>
      map_of sanitized ''lastModified'' = Some (JString ''1970-01-01T00:00:00.000Z'') \<and>
      map_of sanitized ''priority'' = Some (JNumber 60)) \<and>
   distinct (map fst protoMetadata) \<and> JDate InvalidDate \<notin> snd ` set protoMetadata \<and>
   (\<exists>sanitized. sanitizeMetadata utc_format protoMetadata = Inr sanitized \<and>
      map_of sanitized ''__proto__'' = None \<and>
      map_of sanitized ''source'' = Some (JString ''docs'')) \<and>
   distinct (map fst [(''reviewed'', JDate InvalidDate)]) \<and>
   JDate InvalidDate \<in> snd ` set [(''reviewed'', JDate InvalidDate)] \<and>
   sanitizeMetadata utc_format [(''reviewed'', JDate InvalidDate)] = Inl RangeError"
proof -
  have d: "distinct (map fst sampleMetadata)" by (simp add: sampleMetadata_def)
  have v: "JDate InvalidDate \<notin> snd ` set sampleMetadata" by (simp add: sampleMetadata_def)
  have dp: "distinct (map fst protoMetadata)" by (simp add: protoMetadata_def)
  have vp: "JDate InvalidDate \<notin> snd ` set protoMetadata" by (simp add: protoMetadata_def)
  have d': "distinct (map fst [(''reviewed'', JDate InvalidDate)])" by simp
  have v': "JDate InvalidDate \<in> snd ` set [(''reviewed'', JDate InvalidDate)]" by simp
  note ts = sanitizeMetadata_flattens[OF d, of utc_format, THEN conjunct2, THEN conjunct1, rule_format, OF v]
  then obtain ss where "sanitizeMetadata utc_format sampleMetadata = Inr ss"
    by (elim exE conjE) (rule that)
  then have ex: "\<exists>sanitized. sanitizeMetadata utc_format sampleMetadata = Inr sanitized \<and>
      map_of sanitized ''tags'' = Some (JString ''a,b'') \<and>
      map_of sanitized ''frontmatter'' = None \<and>
      map_of sanitized ''category'' = None \<and>
      map_of sanitized ''lastModified'' = Some (JString ''1970-01-01T00:00:00.000Z'') \<and>
      map_of sanitized ''priority'' = Some (JNumber 60)"
    by (auto simp: sampleMetadata_run)
  note tp = sanitizeMetadata_flattens[OF dp, of utc_format, THEN conjunct2, THEN conjunct1, rule_format, OF vp]
  then obtain sp where "sanitizeMetadata utc_format protoMetadata = Inr sp"
    "map_of sp ''__proto__'' = None"
    by (elim exE conjE) (rule that)
  then have exp: "\<exists>sanitized. sanitizeMetadata utc_format protoMetadata = Inr sanitized \<and>
      map_of sanitized ''__proto__'' = None \<and>
      map_of sanitized ''source'' = Some (JString ''docs'')"
    by (auto simp: protoMetadata_run)
  have err: "sanitizeMetadata utc_format [(''reviewed'', JDate InvalidDate)] = Inl RangeError"
    by (rule sanitizeMetadata_flattens[OF d', of utc_format, THEN conjunct1, rule_format, OF v'])
  show ?thesis by (intro conjI d v ex dp vp exp d' v' err)
qed

text \<open>
  A metadata object whose only value is an invalid date: the call throws, so the date is
  not replaced by a timestamp string. And the metadata that \<^verbatim>\<open>JSON.parse\<close> builds from
  \<^verbatim>\<open>{"__proto__":"x","source":"docs"}\<close>: the string under \<^verbatim>\<open>__proto__\<close> is not passed
  through.
\<close>

theorem sanitizeMetadata_invalid_date_counterexample:
  "sanitizeMetadata utc_format [(''reviewed'', JDate InvalidDate)] = Inl RangeError \<and>
   sanitizeMetadata utc_format protoMetadata = Inr [(''source'', JString ''docs'')]"
  by (simp add: sanitizeMetadata_def protoMetadata_def assign_def)

section \<open>Identity assigner: \<^verbatim>\<open>generateChunkId\<close> (scripts/ingest-docs.ts)\<close>

unbundle bit_operations_syntax

subsection \<open>SHA-256 (FIPS 180-4), the digest of Node's \<^verbatim>\<open>crypto.createHash('sha256')\<close>\<close>

type_synonym u32 = "32 word"
type_synonym byte = "8 word"

text \<open>The round constants and the initial hash value.\<close>

definition K256 :: "u32 list" where
  "K256 =
    [0x428A2F98, 0x71374491, 0xB5C0FBCF, 0xE9B5DBA5, 0x3956C25B, 0x59F111F1, 0x923F82A4, 0xAB1C5ED5,
     0xD807AA98, 0x12835B01, 0x243185BE, 0x550C7DC3, 0x72BE5D74, 0x80DEB1FE, 0x9BDC06A7, 0xC19BF174,
     0xE49B69C1, 0xEFBE4786, 0x0FC19DC6, 0x240CA1CC, 0x2DE92C6F, 0x4A7484AA, 0x5CB0A9DC, 0x76F988DA,
     0x983E5152, 0xA831C66D, 0xB00327C8, 0xBF597FC7, 0xC6E00BF3, 0xD5A79147, 0x06CA6351, 0x14292967,
     0x27B70A85, 0x2E1B2138, 0x4D2C6DFC, 0x53380D13, 0x650A7354, 0x766A0ABB, 0x81C2C92E, 0x92722C85,
     0xA2BFE8A1, 0xA81A664B, 0xC24B8B70, 0xC76C51A3, 0xD192E819, 0xD6990624, 0xF40E3585, 0x106AA070,
     0x19A4C116, 0x1E376C08, 0x2748774C, 0x34B0BCB5, 0x391C0CB3, 0x4ED8AA4A, 0x5B9CCA4F, 0x682E6FF3,
     0x748F82EE, 0x78A5636F, 0x84C87814, 0x8CC70208, 0x90BEFFFA, 0xA4506CEB, 0xBEF9A3F7, 0xC67178F2]"

record sha_state =
  ha :: u32
  hb :: u32
  hc :: u32
  hd' :: u32
  he :: u32
  hf :: u32
  hg :: u32
  hh :: u32

definition sha_init :: sha_state where
  "sha_init = \<lparr>ha = 0x6a09e667, hb = 0xbb67ae85, hc = 0x3c6ef372, hd' = 0xa54ff53a,
               he = 0x510e527f, hf = 0x9b05688c, hg = 0x1f83d9ab, hh = 0x5be0cd19\<rparr>"

text \<open>The logical functions on 32-bit words.\<close>

definition Ch :: "u32 \<Rightarrow> u32 \<Rightarrow> u32 \<Rightarrow> u32" where
  "Ch x y z = (x AND y) XOR (NOT x AND z)"

definition Maj :: "u32 \<Rightarrow> u32 \<Rightarrow> u32 \<Rightarrow> u32" where
  "Maj x y z = (x AND y) XOR (x AND z) XOR (y AND z)"

definition Sigma0 :: "u32 \<Rightarrow> u32" where
  "Sigma0 x = word_rotr 2 x XOR word_rotr 13 x XOR word_rotr 22 x"

definition Sigma1 :: "u32 \<Rightarrow> u32" where
  "Sigma1 x = word_rotr 6 x XOR word_rotr 11 x XOR word_rotr 25 x"

definition sigma0 :: "u32 \<Rightarrow> u32" where
  "sigma0 x = word_rotr 7 x XOR word_rotr 18 x XOR drop_bit 3 x"

definition sigma1 :: "u32 \<Rightarrow> u32" where
  "sigma1 x = word_rotr 17 x XOR word_rotr 19 x XOR drop_bit 10 x"

text \<open>
  A block of 64 bytes is read as 16 big-endian words, and the message schedule
  extends them to 64 words.
\<close>

definition be32 :: "byte list \<Rightarrow> u32" where
  "be32 bs = foldl (\<lambda>w b. push_bit 8 w OR ucast b) 0 bs"

fun block_words :: "nat \<Rightarrow> byte list \<Rightarrow> u32 list" where
  "block_words 0 bs = []"
| "block_words (Suc n) bs = be32 (take 4 bs) # block_words n (drop 4 bs)"

fun schedule :: "nat \<Rightarrow> u32 list \<Rightarrow> u32 list" where
  "schedule 0 w = w"
| "schedule (Suc n) w =
     (let t = length w
      in schedule n (w @ [sigma1 (w ! (t - 2)) + w ! (t - 7) + sigma0 (w ! (t - 15)) + w ! (t - 16)]))"

text \<open>One round of the compression function, and the compression of one block.\<close>

definition sha_round :: "sha_state \<Rightarrow> u32 \<times> u32 \<Rightarrow> sha_state" where
  "sha_round s kw =
     (let t1 = hh s + Sigma1 (he s) + Ch (he s) (hf s) (hg s) + fst kw + snd kw;
          t2 = Sigma0 (ha s) + Maj (ha s) (hb s) (hc s)
      in \<lparr>ha = t1 + t2, hb = ha s, hc = hb s, hd' = hc s,
          he = hd' s + t1, hf = he s, hg = hf s, hh = hg s\<rparr>)"

definition sha_block :: "sha_state \<Rightarrow> byte list \<Rightarrow> sha_state" where
  "sha_block h block =
     (let w = schedule 48 (block_words 16 block);
          s = foldl sha_round h (zip K256 w)
      in \<lparr>ha = ha h + ha s, hb = hb h + hb s, hc = hc h + hc s, hd' = hd' h + hd' s,
          he = he h + he s, hf = hf h + hf s, hg = hg h + hg s, hh = hh h + hh s\<rparr>)"

text \<open>
  Padding: the byte \<open>0x80\<close>, zero bytes up to 56 modulo 64, and the length of the
  message in bits as a big-endian 64-bit number.
\<close>

definition be64 :: "nat \<Rightarrow> byte list" where
  "be64 n = map (\<lambda>i. word_of_nat (n div 256 ^ (7 - i))) [0..<8]"

definition sha_pad :: "byte list \<Rightarrow> byte list" where
  "sha_pad m = m @ [0x80] @ replicate ((119 - length m mod 64) mod 64) 0 @ be64 (8 * length m)"

fun sha_blocks :: "nat \<Rightarrow> sha_state \<Rightarrow> byte list \<Rightarrow> sha_state" where
  "sha_blocks 0 h bs = h"
| "sha_blocks (Suc n) h bs = sha_blocks n (sha_block h (take 64 bs)) (drop 64 bs)"

definition sha256 :: "byte list \<Rightarrow> sha_state" where
  "sha256 m = (let p = sha_pad m in sha_blocks (length p div 64) sha_init p)"

text \<open>\<^verbatim>\<open>digest('hex')\<close>: the eight words of the hash, each as eight lower-case hexadecimal digits.\<close>

definition hex_digit :: "nat \<Rightarrow> char" where
  "hex_digit n = ''0123456789abcdef'' ! n"

definition hex32 :: "u32 \<Rightarrow> string" where
  "hex32 w = map (\<lambda>i. hex_digit (unat (drop_bit (4 * (7 - i)) w AND 15))) [0..<8]"

definition hex_digest :: "sha_state \<Rightarrow> string" where
  "hex_digest s =
     hex32 (ha s) @ hex32 (hb s) @ hex32 (hc s) @ hex32 (hd' s) @
     hex32 (he s) @ hex32 (hf s) @ hex32 (hg s) @ hex32 (hh s)"

subsection \<open>The hash object and \<^verbatim>\<open>generateChunkId\<close>\<close>

text \<open>
  \<^verbatim>\<open>hash.update(s)\<close> appends the UTF-8 encoding of \<open>s\<close> to the data of the hash
  object: a code unit below \<open>U+0080\<close> is one byte, one from \<open>U+0080\<close> to \<open>U+00FF\<close>
  two bytes.
\<close>

definition utf8 :: "string \<Rightarrow> byte list" where
  "utf8 s =
     concat (map (\<lambda>c. let n = (of_char c :: nat)
                        in if n < 128 then [word_of_nat n]
                           else [word_of_nat (192 + n div 64), word_of_nat (128 + n mod 64)]) s)"

definition createHash_sha256 :: "byte list" where
  "createHash_sha256 = []"

definition hash_update :: "byte list \<Rightarrow> string \<Rightarrow> byte list" where
  "hash_update h s = h @ utf8 s"

definition hash_digest_hex :: "byte list \<Rightarrow> string" where
  "hash_digest_hex h = hex_digest (sha256 h)"

text \<open>\<^verbatim>\<open>s.substring(start, end)\<close> for two indices that are natural numbers.\<close>

definition substring :: "string \<Rightarrow> nat \<Rightarrow> nat \<Rightarrow> string" where
  "substring s start end = take (max start end - min start end) (drop (min start end) s)"

text \<open>
  \<^verbatim>\<open>generateChunkId(filePath, chunkIndex)\<close>. The chunk index is the index of a chunk in
  the array of chunks, a natural number, and the template literal prints it in decimal.
\<close>

definition generateChunkId :: "string \<Rightarrow> nat \<Rightarrow> string" where
  "generateChunkId filePath chunkIndex =
     (let hash = createHash_sha256;
          hash = hash_update hash (filePath @ ''-'' @ decimal chunkIndex)
      in substring (hash_digest_hex hash) 0 16)"

subsection \<open>The shape of the digest\<close>

lemma length_hex32: "length (hex32 w) = 8"
  by (simp add: hex32_def)

lemma length_hex_digest: "length (hex_digest s) = 64"
  by (simp add: hex_digest_def length_hex32)

lemma hex_digit_range: "n < 16 \<Longrightarrow> hex_digit n \<in> set ''0123456789abcdef''"
  unfolding hex_digit_def by (rule nth_mem) simp

lemma nibble_bound: "unat ((w :: u32) AND 15) < 16"
proof -
  have "unat (w AND 15) \<le> unat (15 :: u32)"
    by (rule word_and_le1 [THEN word_le_nat_alt [THEN iffD1]])
  then show ?thesis by simp
qed

lemma hex32_chars: "set (hex32 w) \<subseteq> set ''0123456789abcdef''"
  unfolding hex32_def using hex_digit_range[OF nibble_bound] by (auto simp del: list.set)

lemma hex_digest_chars: "set (hex_digest s) \<subseteq> set ''0123456789abcdef''"
  unfolding hex_digest_def using hex32_chars by (simp del: list.set)

subsection \<open>Chunk identity\<close>

text \<open>
  Claim C3. \<open>generateChunkId\<close> returns the first 16 characters of the hexadecimal
  SHA-256 digest of \<^verbatim>\<open>{filePath}-{chunkIndex}\<close>. The id has exactly 16 characters, all
  of them hexadecimal digits, and equal inputs give the same id: the hash object is
  created by the call and nothing else enters the digest.
\<close>

theorem generateChunkId_sha256_prefix:
  "generateChunkId filePath chunkIndex =
     take 16 (hex_digest (sha256 (utf8 (filePath @ ''-'' @ decimal chunkIndex)))) \<and>
   length (generateChunkId filePath chunkIndex) = 16 \<and>
   set (generateChunkId filePath chunkIndex) \<subseteq> set ''0123456789abcdef'' \<and>
   (filePath' = filePath \<and> chunkIndex' = chunkIndex \<longrightarrow>
      generateChunkId filePath' chunkIndex' = generateChunkId filePath chunkIndex)"
proof -
  have eq: "generateChunkId filePath chunkIndex =
     take 16 (hex_digest (sha256 (utf8 (filePath @ ''-'' @ decimal chunkIndex))))"
    by (simp add: generateChunkId_def createHash_sha256_def hash_update_def hash_digest_hex_def
        substring_def Let_def)
  have len: "length (generateChunkId filePath chunkIndex) = 16"
    unfolding eq by (simp add: length_hex_digest)
  have chars: "set (generateChunkId filePath chunkIndex) \<subseteq> set ''0123456789abcdef''"
    unfolding eq using hex_digest_chars set_take_subset by (rule order_trans[rotated])
  show ?thesis using eq len chars by blast
qed

theorem generateChunkId_sha256_prefix_witness:
  "''docs/README.md'' = ''docs/README.md'' \<and> (0::nat) = 0 \<and>
   generateChunkId ''docs/README.md'' 0 = generateChunkId ''docs/README.md'' 0 \<and>
   length (generateChunkId ''docs/README.md'' 0) = 16"
  using generateChunkId_sha256_prefix[of "''docs/README.md''" 0 "''docs/README.md''" 0]
  by blast

section \<open>The client \<^verbatim>\<open>ProjectVectorDB\<close> and the vector store (src/lib/types.ts, src/lib/client.ts)\<close>

subsection \<open>The types of src/lib/types.ts\<close>

text \<open>
  An embedding is a list of numbers; a document without embedding has none
  (\<^verbatim>\<open>embedding?: number[]\<close>). A query result takes its id from the response of the
  store, and has none where the response holds fewer ids than distances.
\<close>

record VectorDocument =
  doc_id :: string
  doc_content :: string
  doc_metadata :: js_object
  doc_embedding :: "real list option"

record QueryResult =
  qr_content :: string
  qr_metadata :: js_object
  score :: real
  qr_id :: "string option"

record QueryOptions =
  opt_limit :: "nat option"
  opt_threshold :: "real option"
  opt_category :: "string option"
  opt_source :: "string option"
  opt_tags :: "string list option"
  opt_dateRange :: "(jsdate option \<times> jsdate option) option"

subsection \<open>The vector store and the rest of the environment\<close>

text \<open>
  The store is a server outside the repository. What the client relies on is modelled,
  as the specification describes the store: a collection is a list of entries, each an
  id with a document, a metadata object (each of the two can be \<^verbatim>\<open>null\<close>) and an
  embedding; a request fails when the server is not reachable or the collection it names
  does not exist, and creating a collection that exists fails; \<open>failure\<close> is the
  text that the error of a request to a server that does not answer converts to. The
  ranking of the nearest-neighbour search is a parameter of the environment,
  \<open>search\<close>: from the entries of the collection, the query embedding, \<^verbatim>\<open>nResults\<close>
  and the \<^verbatim>\<open>where\<close> filter to the response. The response is the row for the one
  query embedding the client sends: ids, documents, metadata and distances, where
  \<^verbatim>\<open>metadatas\<close> and \<^verbatim>\<open>distances\<close> can be \<^verbatim>\<open>null\<close>. The environment also has the
  files the client reads and writes, and the clock: \<open>clock w n\<close> is the timestamp
  \<^verbatim>\<open>new Date().toISOString()\<close> of reading number \<open>n\<close>, and \<open>ticks\<close> counts the
  readings. The clock is read where the timestamp goes into a result, in \<^verbatim>\<open>getStats\<close>
  and \<^verbatim>\<open>exportBackup\<close>; the timestamp in the metadata of a new collection is not
  modelled, as the metadata of a collection is not. Output on the console is not
  modelled.
\<close>

record stored =
  stored_id :: string
  stored_document :: "string option"
  stored_metadata :: "js_object option"
  stored_embedding :: "real list"

record QueryResponse =
  response_ids :: "string list"
  response_documents :: "string option list"
  response_metadatas :: "js_object option list option"
  response_distances :: "real list option"

record world =
  reachable :: bool
  collections :: "string \<rightharpoonup> stored list"
  search :: "stored list \<Rightarrow> real list \<Rightarrow> nat \<Rightarrow> js_object option \<Rightarrow> QueryResponse"
  files :: "string \<rightharpoonup> string"
  clock :: "nat \<Rightarrow> string"
  ticks :: nat
  failure :: string

definition readClock :: "world \<Rightarrow> string \<times> world" where
  "readClock w = (clock w (ticks w), w\<lparr>ticks := ticks w + 1\<rparr>)"

definition getCollection :: "string \<Rightarrow> world \<Rightarrow> js_error + string" where
  "getCollection name w =
     (if reachable w \<and> collections w name \<noteq> None then Inr name else Inl BackendError)"

definition createCollection :: "string \<Rightarrow> world \<Rightarrow> (js_error + string) \<times> world" where
  "createCollection name w =
     (if reachable w \<and> collections w name = None
      then (Inr name, w\<lparr>collections := (collections w)(name \<mapsto> [])\<rparr>)
      else (Inl BackendError, w))"

definition deleteCollection :: "string \<Rightarrow> world \<Rightarrow> (js_error + unit) \<times> world" where
  "deleteCollection name w =
     (if reachable w \<and> collections w name \<noteq> None
      then (Inr (), w\<lparr>collections := (collections w)(name := None)\<rparr>)
      else (Inl BackendError, w))"

text \<open>
  \<^verbatim>\<open>collection.add\<close>, as the specification describes the store: a bulk upsert by id.
  An entry with a new id goes to the end of the collection.
\<close>

fun upsert :: "stored \<Rightarrow> stored list \<Rightarrow> stored list" where
  "upsert e [] = [e]"
| "upsert e (x # xs) = (if stored_id x = stored_id e then e # xs else x # upsert e xs)"

definition collection_add :: "string \<Rightarrow> stored list \<Rightarrow> world \<Rightarrow> (js_error + unit) \<times> world" where
  "collection_add handle entries w =
     (case (if reachable w then collections w handle else None) of
        None \<Rightarrow> (Inl BackendError, w)
      | Some existing \<Rightarrow>
          (Inr (), w\<lparr>collections := (collections w)(handle \<mapsto> foldl (\<lambda>acc e. upsert e acc) existing entries)\<rparr>))"

definition collection_get :: "string \<Rightarrow> nat option \<Rightarrow> world \<Rightarrow> js_error + stored list" where
  "collection_get handle maxCount w =
     (case (if reachable w then collections w handle else None) of
        None \<Rightarrow> Inl BackendError
      | Some existing \<Rightarrow> Inr (case maxCount of None \<Rightarrow> existing | Some n \<Rightarrow> take n existing))"

definition collection_count :: "string \<Rightarrow> world \<Rightarrow> js_error + nat" where
  "collection_count handle w =
     (case (if reachable w then collections w handle else None) of
        None \<Rightarrow> Inl BackendError
      | Some existing \<Rightarrow> Inr (length existing))"

text \<open>
  \<^verbatim>\<open>collection.query\<close>: the store answers with the \<^verbatim>\<open>nResults\<close> nearest entries, so
  with at most \<^verbatim>\<open>nResults\<close> of them; the specification calls its answer the
  already-limited result set.
\<close>

definition limited :: "nat \<Rightarrow> QueryResponse \<Rightarrow> QueryResponse" where
  "limited n r =
     \<lparr>response_ids = take n (response_ids r),
      response_documents = take n (response_documents r),
      response_metadatas = map_option (take n) (response_metadatas r),
      response_distances = map_option (take n) (response_distances r)\<rparr>"

definition collection_query ::
  "string \<Rightarrow> real list \<Rightarrow> nat \<Rightarrow> js_object option \<Rightarrow> world \<Rightarrow> js_error + QueryResponse" where
  "collection_query handle queryEmbedding nResults whereClause w =
     (case (if reachable w then collections w handle else None) of
        None \<Rightarrow> Inl BackendError
      | Some existing \<Rightarrow>
          Inr (limited nResults (search w existing queryEmbedding nResults whereClause)))"

subsection \<open>The client object\<close>

text \<open>
  The fields of a \<^verbatim>\<open>ProjectVectorDB\<close>. The embedding function is optional, and
  \<^verbatim>\<open>generate\<close> can throw: it gives no embedding then. The handle of the collection
  is the name the store knows it by. A method takes the client and the environment and
  returns what it returns or throws, with the client and the environment as it leaves
  them.
\<close>

record client =
  collectionName :: string
  embeddingFunction :: "(string \<Rightarrow> real list option) option"
  collection :: "string option"
  isInitialized :: bool

definition constructor :: "string option \<Rightarrow> (string \<Rightarrow> real list option) option \<Rightarrow> client" where
  "constructor name ef =
     \<lparr>collectionName = (case name of None \<Rightarrow> ''project-docs'' | Some n \<Rightarrow> n),
      embeddingFunction = ef, collection = None, isInitialized = False\<rparr>"

type_synonym 'a outcome = "(js_error + 'a) \<times> client \<times> world"

text \<open>
  \<^verbatim>\<open>initialize\<close>: the error of \<^verbatim>\<open>getCollection\<close> is caught and the collection
  created; the error of \<^verbatim>\<open>createCollection\<close> is thrown again as
  \<^verbatim>\<open>Failed to initialize vector DB: ${error}\<close>.
\<close>

definition initialize :: "client \<Rightarrow> world \<Rightarrow> unit outcome" where
  "initialize c w =
     (if isInitialized c then (Inr (), c, w)
      else (case getCollection (collectionName c) w of
              Inr handle \<Rightarrow> (Inr (), c\<lparr>collection := Some handle, isInitialized := True\<rparr>, w)
            | Inl _ \<Rightarrow>
                (case createCollection (collectionName c) w of
                   (Inr handle, w') \<Rightarrow>
                     (Inr (), c\<lparr>collection := Some handle, isInitialized := True\<rparr>, w')
                 | (Inl _, w') \<Rightarrow>
                     (Inl (Error (''Failed to initialize vector DB: '' @ failure w')), c, w'))))"

definition ensureInitialized :: "client \<Rightarrow> world \<Rightarrow> unit outcome" where
  "ensureInitialized c w = (if \<not> isInitialized c then initialize c w else (Inr (), c, w))"

subsection \<open>\<^verbatim>\<open>query\<close>\<close>

text \<open>
  The \<^verbatim>\<open>where\<close> clause: a category and a source that are non-empty strings, a
  non-empty list of tags, and the bounds of a date range. A bound that is an invalid
  date makes \<^verbatim>\<open>toISOString\<close> throw.
\<close>

definition truthy_string :: "string option \<Rightarrow> bool" where
  "truthy_string s = (s \<noteq> None \<and> s \<noteq> Some [])"

definition dateBound :: "js_format \<Rightarrow> string \<Rightarrow> jsdate option \<Rightarrow> js_error + js_object" where
  "dateBound f key d =
     (case d of
        None \<Rightarrow> Inr []
      | Some InvalidDate \<Rightarrow> Inl RangeError
      | Some (Date t) \<Rightarrow> Inr [(key, JString (toISOString f t))])"

definition buildWhere :: "js_format \<Rightarrow> QueryOptions \<Rightarrow> js_error + js_object" where
  "buildWhere f options =
     (let whereClause = [];
          whereClause = (if truthy_string (opt_category options)
                         then AList.update ''category'' (JString (the (opt_category options))) whereClause
                         else whereClause);
          whereClause = (if truthy_string (opt_source options)
                         then AList.update ''source'' (JString (the (opt_source options))) whereClause
                         else whereClause);
          whereClause = (case opt_tags options of
                           None \<Rightarrow> whereClause
                         | Some ts \<Rightarrow>
                             if length ts > 0
                             then AList.update ''tags'' (JObject [(''$in'', JArray (map JString ts))]) whereClause
                             else whereClause)
      in case opt_dateRange options of
           None \<Rightarrow> Inr whereClause
         | Some (start, end) \<Rightarrow>
             if start \<noteq> None \<or> end \<noteq> None then
               (case dateBound f ''$gte'' start of
                  Inl e \<Rightarrow> Inl e
                | Inr gte \<Rightarrow>
                    (case dateBound f ''$lte'' end of
                       Inl e \<Rightarrow> Inl e
                     | Inr lte \<Rightarrow> Inr (AList.update ''lastModified'' (JObject (gte @ lte)) whereClause)))
             else Inr whereClause)"

text \<open>
  The loop over \<^verbatim>\<open>results.distances[0]\<close>. An index past the end of an array reads
  \<^verbatim>\<open>undefined\<close>: the content is then the empty string and the metadata the empty
  object.
\<close>

definition nth_or :: "'a list \<Rightarrow> nat \<Rightarrow> 'a option" where
  "nth_or xs i = (if i < length xs then Some (xs ! i) else None)"

definition resultAt :: "QueryResponse \<Rightarrow> nat \<Rightarrow> real \<Rightarrow> QueryResult" where
  "resultAt results i similarity =
     \<lparr>qr_content = (case nth_or (response_documents results) i of Some (Some d) \<Rightarrow> d | _ \<Rightarrow> []),
      qr_metadata = (case response_metadatas results of
                       None \<Rightarrow> []
                     | Some ms \<Rightarrow> (case nth_or ms i of Some (Some m) \<Rightarrow> m | _ \<Rightarrow> [])),
      score = similarity,
      qr_id = nth_or (response_ids results) i\<rparr>"

text \<open>
  \<^verbatim>\<open>similarity = 1 - distance\<close> is a subtraction of doubles, and
  \<^verbatim>\<open>similarity >= threshold\<close> compares two doubles, which is the comparison of their
  values.
\<close>

fun resultLoop ::
  "js_format \<Rightarrow> QueryResponse \<Rightarrow> real \<Rightarrow> real list \<Rightarrow> nat \<Rightarrow> QueryResult list \<Rightarrow> QueryResult list" where
  "resultLoop f results threshold [] i queryResults = queryResults"
| "resultLoop f results threshold (distance # rest) i queryResults =
     (let similarity = difference f 1 distance
      in if similarity \<ge> threshold
         then resultLoop f results threshold rest (i + 1) (queryResults @ [resultAt results i similarity])
         else resultLoop f results threshold rest (i + 1) queryResults)"

text \<open>
  \<^verbatim>\<open>queryResults.sort((a, b) => b.score - a.score)\<close>: the difference of two doubles
  is zero only when they are equal and has the sign of the exact difference otherwise,
  so the comparison is a total preorder on the scores, for which
  \<^verbatim>\<open>Array.prototype.sort\<close> is a stable sort by descending score.
\<close>

definition processResults :: "js_format \<Rightarrow> QueryResponse \<Rightarrow> real \<Rightarrow> QueryResult list" where
  "processResults f results threshold =
     (let queryResults = (case response_distances results of
                            None \<Rightarrow> []
                          | Some ds \<Rightarrow> resultLoop f results threshold ds 0 [])
      in sort_key (\<lambda>r. - score r) queryResults)"

text \<open>
  The defaults of the options: \<^verbatim>\<open>limit = 5\<close>, and \<^verbatim>\<open>threshold = 0.7\<close>, which is the
  double nearest to seven tenths.
\<close>

definition defaultThreshold :: real where
  "defaultThreshold = 3152519739159347 / 4503599627370496"

definition query :: "js_format \<Rightarrow> string \<Rightarrow> QueryOptions \<Rightarrow> client \<Rightarrow> world \<Rightarrow> QueryResult list outcome" where
  "query f queryText options c w =
     (case ensureInitialized c w of
        (Inl e, c', w') \<Rightarrow> (Inl e, c', w')
      | (Inr _, c', w') \<Rightarrow>
          (let limit = (case opt_limit options of None \<Rightarrow> 5 | Some n \<Rightarrow> n);
               threshold = (case opt_threshold options of None \<Rightarrow> defaultThreshold | Some t \<Rightarrow> t)
           in case collection c' of
                None \<Rightarrow> (Inl (Error ''Collection not initialized''), c', w')
              | Some handle \<Rightarrow>
                  (case embeddingFunction c' of
                     None \<Rightarrow>
                       (Inl (Error ''Embedding function not configured. Please provide one in the constructor.''), c', w')
                   | Some generate \<Rightarrow>
                       (case generate queryText of
                          None \<Rightarrow> (Inl EmbeddingError, c', w')
                        | Some embedding \<Rightarrow>
                            (case buildWhere f options of
                               Inl e \<Rightarrow> (Inl e, c', w')
                             | Inr whereClause \<Rightarrow>
                                 (case collection_query handle embedding limit
                                         (if length whereClause > 0 then Some whereClause else None) w' of
                                    Inl e \<Rightarrow> (Inl e, c', w')
                                  | Inr results \<Rightarrow> (Inr (processResults f results threshold), c', w')))))))"

subsection \<open>\<^verbatim>\<open>clearCollection\<close>\<close>

text \<open>The parameter \<^verbatim>\<open>confirm = false\<close>: an omitted argument is \<open>None\<close>.\<close>

definition clearCollection :: "bool option \<Rightarrow> client \<Rightarrow> world \<Rightarrow> unit outcome" where
  "clearCollection confirm c w =
     (if \<not> (case confirm of None \<Rightarrow> False | Some b \<Rightarrow> b)
      then (Inl (Error ''Must confirm deletion by passing true''), c, w)
      else (case ensureInitialized c w of
              (Inl e, c', w') \<Rightarrow> (Inl e, c', w')
            | (Inr _, c', w') \<Rightarrow>
                (case collection c' of
                   None \<Rightarrow> (Inl (Error ''Collection not initialized''), c', w')
                 | Some _ \<Rightarrow>
                     (case deleteCollection (collectionName c') w' of
                        (Inl e, w'') \<Rightarrow> (Inl e, c', w'')
                      | (Inr _, w'') \<Rightarrow>
                          (case createCollection (collectionName c') w'' of
                             (Inl e, w''') \<Rightarrow> (Inl e, c', w''')
                           | (Inr handle, w''') \<Rightarrow> (Inr (), c'\<lparr>collection := Some handle\<rparr>, w'''))))))"

text \<open>
  What the methods keep true of a client and the store it talks to, while no other
  client deletes its collection: an initialized client holds the handle of its
  collection, and the collection exists.
\<close>

definition consistent :: "client \<Rightarrow> world \<Rightarrow> bool" where
  "consistent c w =
     (if isInitialized c
      then collection c = Some (collectionName c) \<and> collections w (collectionName c) \<noteq> None
      else True)"

text \<open>
  A client after its initialization, and the entries of a collection by name (none for
  a collection that does not exist).
\<close>

definition ready :: "client \<Rightarrow> client" where
  "ready c = c\<lparr>collection := Some (collectionName c), isInitialized := True\<rparr>"

definition entriesOf :: "world \<Rightarrow> string \<Rightarrow> stored list" where
  "entriesOf w name = (case collections w name of None \<Rightarrow> [] | Some entries \<Rightarrow> entries)"

subsection \<open>A client, a store and responses for concrete runs\<close>

text \<open>
  The distances of the sample response are doubles whose difference from 1 is a double.
\<close>

definition noOptions :: QueryOptions where
  "noOptions = \<lparr>opt_limit = None, opt_threshold = None, opt_category = None,
                 opt_source = None, opt_tags = None, opt_dateRange = None\<rparr>"

definition sampleEmbedder :: "string \<Rightarrow> real list option" where
  "sampleEmbedder t = Some [real (length t)]"

definition sampleClient :: client where
  "sampleClient = constructor None (Some sampleEmbedder)"

definition sampleResponse :: QueryResponse where
  "sampleResponse =
     \<lparr>response_ids = [''a'', ''b'', ''c''],
      response_documents = [Some ''alpha'', Some ''beta'', None],
      response_metadatas = Some [Some [(''source'', JString ''docs'')], None, None],
      response_distances = Some [1 / 2, 1 / 4, 1 / 8]\<rparr>"

definition sampleWorld :: world where
  "sampleWorld =
     \<lparr>reachable = True, collections = [''project-docs'' \<mapsto> []],
      search = (\<lambda>entries embedding nResults whereClause. sampleResponse),
      files = Map.empty,
      clock = (\<lambda>n. if n = 0 then ''1970-01-01T00:00:00.000Z'' else ''1970-01-01T00:00:00.001Z''),
      ticks = 0,
      failure = ''TypeError: fetch failed''\<rparr>"

definition freshWorld :: world where
  "freshWorld = sampleWorld\<lparr>collections := Map.empty\<rparr>"

definition storedWorld :: world where
  "storedWorld = sampleWorld\<lparr>collections := [''project-docs'' \<mapsto>
     [\<lparr>stored_id = ''a'', stored_document = Some ''alpha'', stored_metadata = None,
       stored_embedding = [1]\<rparr>]]\<rparr>"


definition twoOptions :: QueryOptions where
  "twoOptions = noOptions\<lparr>opt_limit := Some 2, opt_threshold := Some 0\<rparr>"

definition plainClient :: client where
  "plainClient = constructor None None"

subsection \<open>The retrieval filter\<close>

lemma resultLoop_eq:
  "resultLoop f results t ds i acc =
     acc @ map (\<lambda>(j, d). resultAt results j (difference f 1 d))
             (filter (\<lambda>(j, d). t \<le> difference f 1 d) (enumerate i ds))"
  by (induction ds arbitrary: i acc) (simp_all add: Let_def)

definition returnedDistances :: "QueryResponse \<Rightarrow> real list" where
  "returnedDistances results = (case response_distances results of None \<Rightarrow> [] | Some ds \<Rightarrow> ds)"

lemma processResults_set:
  "set (processResults f results t) =
     {resultAt results i (difference f 1 (returnedDistances results ! i)) | i.
        i < length (returnedDistances results) \<and> t \<le> difference f 1 (returnedDistances results ! i)}"
proof (cases "response_distances results")
  case None
  then show ?thesis by (simp add: processResults_def returnedDistances_def)
next
  case (Some ds)
  have "set (processResults f results t) =
      (\<lambda>(j, d). resultAt results j (difference f 1 d)) `
        {p \<in> set (enumerate 0 ds). t \<le> difference f 1 (snd p)}"
    using Some by (auto simp: processResults_def resultLoop_eq split_def)
  also have "\<dots> = {resultAt results i (difference f 1 (ds ! i)) | i.
      i < length ds \<and> t \<le> difference f 1 (ds ! i)}"
    by (auto simp: in_set_enumerate_eq image_iff)
  finally show ?thesis using Some by (simp add: returnedDistances_def)
qed

lemma processResults_length:
  "length (processResults f results t) \<le> length (returnedDistances results)"
proof (cases "response_distances results")
  case None
  then show ?thesis by (simp add: processResults_def)
next
  case (Some ds)
  have "length (filter (\<lambda>(j, d). t \<le> difference f 1 d) (enumerate 0 ds)) \<le> length (enumerate 0 ds)"
    by (rule length_filter_le)
  then show ?thesis using Some by (simp add: processResults_def resultLoop_eq returnedDistances_def)
qed

lemma processResults_sorted:
  "Suc i < length (processResults f results t) \<Longrightarrow>
   \<not> score (processResults f results t ! i) < score (processResults f results t ! Suc i)"
proof -
  assume i: "Suc i < length (processResults f results t)"
  have "sorted (map (\<lambda>r. - score r) (processResults f results t))"
    by (simp add: processResults_def)
  then have "map (\<lambda>r. - score r) (processResults f results t) ! i
      \<le> map (\<lambda>r. - score r) (processResults f results t) ! Suc i"
    using i by (intro sorted_nth_mono) simp_all
  then show ?thesis using i by simp
qed

lemma limited_distances: "length (returnedDistances (limited n r)) \<le> n"
  by (cases "response_distances r") (simp_all add: returnedDistances_def limited_def)

lemma collection_query_limit:
  "collection_query handle embedding n whereClause w = Inr response \<Longrightarrow>
   length (returnedDistances response) \<le> n"
  by (auto simp: collection_query_def limited_distances split: option.splits if_splits)

lemma ensureInitialized_cases:
  "ensureInitialized c w = (Inr u, c', w') \<Longrightarrow>
     (isInitialized c \<and> c' = c \<and> w' = w) \<or>
     (\<not> isInitialized c \<and> isInitialized c' \<and> collection c' = Some (collectionName c) \<and>
      collectionName c' = collectionName c \<and> embeddingFunction c' = embeddingFunction c)"
  by (auto simp: ensureInitialized_def initialize_def getCollection_def createCollection_def
      split: if_splits sum.splits prod.splits)

lemma sample_threshold: "(3 / 4 :: real) \<ge> defaultThreshold" "\<not> (1 / 2 :: real) \<ge> defaultThreshold"
  "(7 / 8 :: real) \<ge> defaultThreshold"
  by (simp_all add: defaultThreshold_def)

lemma sample_query_run:
  "query utc_format ''how?'' noOptions sampleClient sampleWorld =
     (Inr [\<lparr>qr_content = [], qr_metadata = [], score = 7 / 8, qr_id = Some ''c''\<rparr>,
           \<lparr>qr_content = ''beta'', qr_metadata = [], score = 3 / 4, qr_id = Some ''b''\<rparr>],
      sampleClient\<lparr>collection := Some ''project-docs'', isInitialized := True\<rparr>, sampleWorld)"
  by (simp add: query_def ensureInitialized_def initialize_def getCollection_def sampleClient_def
      constructor_def sampleWorld_def noOptions_def sampleEmbedder_def buildWhere_def
      truthy_string_def collection_query_def limited_def processResults_def sampleResponse_def
      resultAt_def nth_or_def Let_def utc_format_def defaultThreshold_def)

lemma two_query_run:
  "query utc_format ''how?'' twoOptions sampleClient sampleWorld =
     (Inr [\<lparr>qr_content = ''beta'', qr_metadata = [], score = 3 / 4, qr_id = Some ''b''\<rparr>,
           \<lparr>qr_content = ''alpha'', qr_metadata = [(''source'', JString ''docs'')], score = 1 / 2,
             qr_id = Some ''a''\<rparr>],
      sampleClient\<lparr>collection := Some ''project-docs'', isInitialized := True\<rparr>, sampleWorld)"
  by (simp add: query_def ensureInitialized_def initialize_def getCollection_def sampleClient_def
      constructor_def sampleWorld_def noOptions_def twoOptions_def sampleEmbedder_def buildWhere_def
      truthy_string_def collection_query_def limited_def processResults_def sampleResponse_def
      resultAt_def nth_or_def Let_def utc_format_def)

text \<open>
  Claim C2. When \<open>query\<close> returns, the store has answered the search for the embedding
  of the query text, with \<open>limit\<close> (5 when the caller gives none) as \<^verbatim>\<open>nResults\<close>, and
  against the row of distances of its response: every result has the score
  \<^verbatim>\<open>1 - distance\<close> of an entry of the row and is built from that entry; every result
  has a score of at least the threshold (0.7 when the caller gives none), and every
  entry that reaches the threshold is among the results; there are at most \<open>limit\<close>
  results; and the results are in descending order of score.
\<close>

theorem query_scores_threshold_order:
  assumes "query f queryText options c w = (Inr results, c', w')"
  shows "\<exists>handle generate embedding whereClause response.
           collection c' = Some handle \<and> embeddingFunction c' = Some generate \<and>
           generate queryText = Some embedding \<and> buildWhere f options = Inr whereClause \<and>
           collection_query handle embedding (case opt_limit options of None \<Rightarrow> 5 | Some n \<Rightarrow> n)
             (if length whereClause > 0 then Some whereClause else None) w' = Inr response \<and>
           (\<forall>r \<in> set results. \<exists>i < length (returnedDistances response).
              score r = difference f 1 (returnedDistances response ! i) \<and>
              r = resultAt response i (score r)) \<and>
           (\<forall>r \<in> set results.
              score r \<ge> (case opt_threshold options of None \<Rightarrow> defaultThreshold | Some t \<Rightarrow> t)) \<and>
           (\<forall>i < length (returnedDistances response).
              difference f 1 (returnedDistances response ! i)
                \<ge> (case opt_threshold options of None \<Rightarrow> defaultThreshold | Some t \<Rightarrow> t) \<longrightarrow>
              resultAt response i (difference f 1 (returnedDistances response ! i)) \<in> set results) \<and>
           length (returnedDistances response) \<le> (case opt_limit options of None \<Rightarrow> 5 | Some n \<Rightarrow> n) \<and>
           length results \<le> (case opt_limit options of None \<Rightarrow> 5 | Some n \<Rightarrow> n) \<and>
           (\<forall>i. Suc i < length results \<longrightarrow> \<not> score (results ! i) < score (results ! Suc i))"
proof -
  define t where "t = (case opt_threshold options of None \<Rightarrow> defaultThreshold | Some t \<Rightarrow> t)"
  define n where "n = (case opt_limit options of None \<Rightarrow> 5 | Some n \<Rightarrow> (n::nat))"
  from assms obtain handle generate embedding whereClause response where
    h: "collection c' = Some handle" and g: "embeddingFunction c' = Some generate"
    and em: "generate queryText = Some embedding" and wc: "buildWhere f options = Inr whereClause"
    and q: "collection_query handle embedding n
              (if length whereClause > 0 then Some whereClause else None) w' = Inr response"
    and r: "results = processResults f response t"
    unfolding query_def t_def n_def Let_def
    by (auto split: prod.splits sum.splits option.splits)
  have mem: "set results = {resultAt response i (difference f 1 (returnedDistances response ! i)) | i.
        i < length (returnedDistances response) \<and> t \<le> difference f 1 (returnedDistances response ! i)}"
    unfolding r by (rule processResults_set)
  have sc: "score (resultAt response i s) = s" for i s by (simp add: resultAt_def)
  have a: "\<forall>r \<in> set results. \<exists>i < length (returnedDistances response).
              score r = difference f 1 (returnedDistances response ! i) \<and>
              r = resultAt response i (score r)"
    unfolding mem using sc by auto
  have b: "\<forall>r \<in> set results. score r \<ge> t" unfolding mem using sc by auto
  have cc: "\<forall>i < length (returnedDistances response).
              difference f 1 (returnedDistances response ! i) \<ge> t \<longrightarrow>
              resultAt response i (difference f 1 (returnedDistances response ! i)) \<in> set results"
    unfolding mem by auto
  have d0: "length (returnedDistances response) \<le> n"
    using q by (rule collection_query_limit)
  have "length results \<le> length (returnedDistances response)"
    unfolding r by (rule processResults_length)
  then have d: "length results \<le> n" using d0 by simp
  have e: "\<forall>i. Suc i < length results \<longrightarrow> \<not> score (results ! i) < score (results ! Suc i)"
    unfolding r using processResults_sorted by blast
  show ?thesis
    unfolding t_def[symmetric] n_def[symmetric]
    using h g em wc q a b cc d0 d e by blast
qed

theorem query_scores_threshold_order_witness:
  "query utc_format ''how?'' twoOptions sampleClient sampleWorld =
     (Inr [\<lparr>qr_content = ''beta'', qr_metadata = [], score = 3 / 4, qr_id = Some ''b''\<rparr>,
           \<lparr>qr_content = ''alpha'', qr_metadata = [(''source'', JString ''docs'')], score = 1 / 2,
             qr_id = Some ''a''\<rparr>],
      sampleClient\<lparr>collection := Some ''project-docs'', isInitialized := True\<rparr>, sampleWorld) \<and>
   opt_limit twoOptions = Some 2 \<and>
   (\<exists>handle embedding whereClause response.
      collection_query handle embedding 2 whereClause sampleWorld = Inr response \<and>
      returnedDistances response = [1 / 2, 1 / 4] \<and>
      length (returnedDistances response) \<le> 2)"
proof -
  have two: "(case opt_limit twoOptions of None \<Rightarrow> 5 | Some n \<Rightarrow> n) = (2::nat)"
    by (simp add: twoOptions_def)
  note t = query_scores_threshold_order[OF two_query_run, unfolded two]
  then obtain handle embedding whereClause response where
    r: "collection_query handle embedding 2
          (if length whereClause > 0 then Some whereClause else None) sampleWorld = Inr response"
      "length (returnedDistances response) \<le> 2"
    by (elim exE conjE) (rule that)
  from r(1) have "response = limited 2 sampleResponse"
    by (simp add: collection_query_def sampleWorld_def split: if_splits option.splits)
  then have d: "returnedDistances response = [1 / 2, 1 / 4]"
    by (simp add: returnedDistances_def sampleResponse_def limited_def)
  have l: "opt_limit twoOptions = Some 2" by (simp add: twoOptions_def)
  from r d have "\<exists>handle embedding whereClause response.
      collection_query handle embedding 2 whereClause sampleWorld = Inr response \<and>
      returnedDistances response = [1 / 2, 1 / 4] \<and>
      length (returnedDistances response) \<le> 2"
    by (intro exI conjI)
  then show ?thesis using two_query_run l by (intro conjI)
qed

subsection \<open>Querying before \<^verbatim>\<open>initialize\<close>\<close>

lemma dateBound_error: "dateBound f key d = Inl e \<Longrightarrow> e = RangeError"
  by (auto simp: dateBound_def split: option.splits jsdate.splits)

lemma buildWhere_error: "buildWhere f options = Inl e \<Longrightarrow> e = RangeError"
  unfolding buildWhere_def Let_def
  by (auto split: option.splits prod.splits if_splits sum.splits dest: dateBound_error)

lemma collection_query_error:
  "collection_query handle embedding n whereClause w = Inl e \<Longrightarrow> e = BackendError"
  by (auto simp: collection_query_def split: option.splits if_splits)

lemma query_ready:
  assumes "isInitialized c" "collection c = Some name" "reachable w"
    and "collections w name = Some existing"
  shows "query f queryText options c w =
     ((case embeddingFunction c of
         None \<Rightarrow> Inl (Error ''Embedding function not configured. Please provide one in the constructor.'')
       | Some generate \<Rightarrow>
           (case generate queryText of
              None \<Rightarrow> Inl EmbeddingError
            | Some embedding \<Rightarrow>
                (case buildWhere f options of
                   Inl e \<Rightarrow> Inl RangeError
                 | Inr whereClause \<Rightarrow>
                     Inr (processResults f
                            (limited (case opt_limit options of None \<Rightarrow> 5 | Some n \<Rightarrow> n)
                               (search w existing embedding
                                  (case opt_limit options of None \<Rightarrow> 5 | Some n \<Rightarrow> n)
                                  (if length whereClause > 0 then Some whereClause else None)))
                            (case opt_threshold options of None \<Rightarrow> defaultThreshold | Some t \<Rightarrow> t))))),
      c, w)"
proof (cases "embeddingFunction c")
  case None
  then show ?thesis using assms by (simp add: query_def ensureInitialized_def)
next
  case (Some generate)
  note g = Some
  show ?thesis
  proof (cases "generate queryText")
    case None
    then show ?thesis using assms g by (simp add: query_def ensureInitialized_def)
  next
    case (Some embedding)
    note em = Some
    show ?thesis
    proof (cases "buildWhere f options")
      case (Inl e)
      then have "e = RangeError" by (rule buildWhere_error)
      then show ?thesis using assms g em Inl by (simp add: query_def ensureInitialized_def)
    next
      case (Inr whereClause)
      then show ?thesis using assms g em
        by (simp add: query_def ensureInitialized_def collection_query_def
            del: length_greater_0_conv)
    qed
  qed
qed

lemma initialize_reachable:
  assumes "\<not> isInitialized c" "reachable w"
  shows "initialize c w =
           (Inr (), ready c,
            if collections w (collectionName c) = None
            then w\<lparr>collections := (collections w)(collectionName c \<mapsto> [])\<rparr> else w)"
  using assms
  by (auto simp: initialize_def getCollection_def createCollection_def ready_def split: sum.splits)

lemma initialize_unreachable:
  assumes "\<not> isInitialized c" "\<not> reachable w"
  shows "initialize c w = (Inl (Error (''Failed to initialize vector DB: '' @ failure w)), c, w)"
  using assms by (simp add: initialize_def getCollection_def createCollection_def)

text \<open>
  Claim C7, as the code has it. On a client on which \<open>initialize\<close> has not run,
  \<open>query\<close> runs it (through \<open>ensureInitialized\<close>) and goes on as a query on the
  initialized client. When the store is not reachable, the initialization fails and
  \<open>query\<close> throws its error, \<^verbatim>\<open>Failed to initialize vector DB: \<close> followed by the text
  of the error of the store, and returns no results. When the store is reachable, the
  initialization succeeds and creates the collection if there is none; \<open>query\<close> then
  throws \<^verbatim>\<open>Embedding function not configured. Please provide one in the constructor.\<close>
  when the client has no embedding function, the error of the embedding function when
  that throws, \<^verbatim>\<open>RangeError\<close> when a bound of the date range is an invalid date, and
  otherwise searches and returns the results that the response of the store gives. The
  error \<^verbatim>\<open>Collection not initialized\<close> is never thrown.
\<close>

theorem query_initializes_lazily:
  assumes "\<not> isInitialized c"
  shows "query f queryText options c w =
           (case initialize c w of
              (Inl e, c', w') \<Rightarrow> (Inl e, c', w')
            | (Inr u, c', w') \<Rightarrow> query f queryText options c' w') \<and>
         (\<not> reachable w \<longrightarrow>
            initialize c w = (Inl (Error (''Failed to initialize vector DB: '' @ failure w)), c, w) \<and>
            query f queryText options c w =
              (Inl (Error (''Failed to initialize vector DB: '' @ failure w)), c, w)) \<and>
         (reachable w \<longrightarrow>
            (\<exists>w'. w' = (if collections w (collectionName c) = None
                         then w\<lparr>collections := (collections w)(collectionName c \<mapsto> [])\<rparr> else w) \<and>
                  initialize c w = (Inr (), ready c, w') \<and>
                  query f queryText options c w = query f queryText options (ready c) w' \<and>
                  query f queryText options c w =
                    ((case embeddingFunction c of
                        None \<Rightarrow>
                          Inl (Error ''Embedding function not configured. Please provide one in the constructor.'')
                      | Some generate \<Rightarrow>
                          (case generate queryText of
                             None \<Rightarrow> Inl EmbeddingError
                           | Some embedding \<Rightarrow>
                               (case buildWhere f options of
                                  Inl e \<Rightarrow> Inl RangeError
                                | Inr whereClause \<Rightarrow>
                                    Inr (processResults f
                                           (limited (case opt_limit options of None \<Rightarrow> 5 | Some n \<Rightarrow> n)
                                              (search w (entriesOf w (collectionName c)) embedding
                                                 (case opt_limit options of None \<Rightarrow> 5 | Some n \<Rightarrow> n)
                                                 (if length whereClause > 0 then Some whereClause else None)))
                                           (case opt_threshold options of
                                              None \<Rightarrow> defaultThreshold | Some t \<Rightarrow> t))))),
                     ready c, w'))) \<and>
         fst (query f queryText options c w) \<noteq> Inl (Error ''Collection not initialized'')"
proof -
  define w1 where "w1 = (if collections w (collectionName c) = None
                         then w\<lparr>collections := (collections w)(collectionName c \<mapsto> [])\<rparr> else w)"
  define answer where "answer =
     (case embeddingFunction c of
        None \<Rightarrow>
          Inl (Error ''Embedding function not configured. Please provide one in the constructor.'')
      | Some generate \<Rightarrow>
          (case generate queryText of
             None \<Rightarrow> Inl EmbeddingError
           | Some embedding \<Rightarrow>
               (case buildWhere f options of
                  Inl e \<Rightarrow> Inl RangeError
                | Inr whereClause \<Rightarrow>
                    Inr (processResults f
                           (limited (case opt_limit options of None \<Rightarrow> 5 | Some n \<Rightarrow> n)
                              (search w (entriesOf w (collectionName c)) embedding
                                 (case opt_limit options of None \<Rightarrow> 5 | Some n \<Rightarrow> n)
                                 (if length whereClause > 0 then Some whereClause else None)))
                           (case opt_threshold options of
                              None \<Rightarrow> defaultThreshold | Some t \<Rightarrow> t)))))"
  have run: "query f queryText options c w =
           (case initialize c w of
              (Inl e, c', w') \<Rightarrow> (Inl e, c', w')
            | (Inr u, c', w') \<Rightarrow> query f queryText options c' w')"
  proof (cases "reachable w")
    case True
    have "isInitialized (ready c)" by (simp add: ready_def)
    then show ?thesis using assms
      by (simp add: initialize_reachable[OF assms True] query_def ensureInitialized_def)
  next
    case False
    show ?thesis using assms
      by (simp add: initialize_unreachable[OF assms False] query_def ensureInitialized_def)
  qed
  have down: "initialize c w = (Inl (Error (''Failed to initialize vector DB: '' @ failure w)), c, w) \<and>
            query f queryText options c w =
              (Inl (Error (''Failed to initialize vector DB: '' @ failure w)), c, w)"
    if "\<not> reachable w"
    using run initialize_unreachable[OF assms that] by simp
  have up: "initialize c w = (Inr (), ready c, w1) \<and>
            query f queryText options c w = query f queryText options (ready c) w1 \<and>
            query f queryText options c w = (answer, ready c, w1)"
    if r: "reachable w"
  proof -
    have i: "initialize c w = (Inr (), ready c, w1)"
      unfolding w1_def by (rule initialize_reachable[OF assms r])
    have q: "query f queryText options c w = query f queryText options (ready c) w1"
      using run i by simp
    have r1: "reachable w1" using r by (simp add: w1_def)
    have c1: "collections w1 (collectionName c) = Some (entriesOf w (collectionName c))"
      by (auto simp: w1_def entriesOf_def)
    have s1: "search w1 = search w" by (simp add: w1_def)
    note qr = query_ready[of "ready c" "collectionName c" w1 "entriesOf w (collectionName c)"
          f queryText options, unfolded s1]
    have "query f queryText options (ready c) w1 = (answer, ready c, w1)"
      unfolding answer_def using qr r1 c1 by (simp add: ready_def)
    then show ?thesis using i q by simp
  qed
  have never: "fst (query f queryText options c w) \<noteq> Inl (Error ''Collection not initialized'')"
  proof (cases "reachable w")
    case True
    have "answer \<noteq> Inl (Error ''Collection not initialized'')"
      by (simp add: answer_def split: option.splits sum.splits)
    then show ?thesis using up[OF True, THEN conjunct2, THEN conjunct2] by simp
  next
    case False
    then show ?thesis using down by simp
  qed
  show ?thesis
    using run down up never unfolding w1_def answer_def by blast
qed

theorem query_initializes_lazily_witness:
  "\<not> isInitialized sampleClient \<and> reachable sampleWorld \<and>
   \<not> reachable (sampleWorld\<lparr>reachable := False\<rparr>) \<and>
   query utc_format ''how?'' noOptions sampleClient (sampleWorld\<lparr>reachable := False\<rparr>) =
     (Inl (Error ''Failed to initialize vector DB: TypeError: fetch failed''), sampleClient,
      sampleWorld\<lparr>reachable := False\<rparr>) \<and>
   initialize sampleClient sampleWorld = (Inr (), ready sampleClient, sampleWorld) \<and>
   query utc_format ''how?'' noOptions sampleClient sampleWorld =
     query utc_format ''how?'' noOptions (ready sampleClient) sampleWorld \<and>
   fst (query utc_format ''how?'' noOptions sampleClient sampleWorld)
     \<noteq> Inl (Error ''Collection not initialized'') \<and>
   \<not> isInitialized plainClient \<and>
   query utc_format ''how?'' noOptions plainClient sampleWorld =
     (Inl (Error ''Embedding function not configured. Please provide one in the constructor.''),
      ready plainClient, sampleWorld)"
proof -
  have n: "\<not> isInitialized sampleClient" by (simp add: sampleClient_def constructor_def)
  have np: "\<not> isInitialized plainClient" by (simp add: plainClient_def constructor_def)
  have r: "reachable sampleWorld" by (simp add: sampleWorld_def)
  have d: "\<not> reachable (sampleWorld\<lparr>reachable := False\<rparr>)" by simp
  have same: "(if collections sampleWorld (collectionName c) = None
               then sampleWorld\<lparr>collections := (collections sampleWorld)(collectionName c \<mapsto> [])\<rparr>
               else sampleWorld) = sampleWorld"
    if "collectionName c = ''project-docs''" for c
    using that by (simp add: sampleWorld_def)
  have names: "collectionName sampleClient = ''project-docs''"
    "collectionName plainClient = ''project-docs''" "embeddingFunction plainClient = None"
    by (simp_all add: sampleClient_def plainClient_def constructor_def)
  note t = query_initializes_lazily[OF n, of utc_format "''how?''" noOptions]
  note up = t[of sampleWorld, THEN conjunct2, THEN conjunct2, THEN conjunct1, rule_format, OF r,
      unfolded same[OF names(1)]]
  note never = t[of sampleWorld, THEN conjunct2, THEN conjunct2, THEN conjunct2]
  note down = t[of "sampleWorld\<lparr>reachable := False\<rparr>", THEN conjunct2, THEN conjunct1, rule_format,
      OF d, THEN conjunct2]
  note plain = query_initializes_lazily[OF np, of utc_format "''how?''" noOptions sampleWorld,
      THEN conjunct2, THEN conjunct2, THEN conjunct1, rule_format, OF r, unfolded same[OF names(2)]]
  have a: "query utc_format ''how?'' noOptions sampleClient (sampleWorld\<lparr>reachable := False\<rparr>) =
     (Inl (Error ''Failed to initialize vector DB: TypeError: fetch failed''), sampleClient,
      sampleWorld\<lparr>reachable := False\<rparr>)"
    using down by (simp add: sampleWorld_def)
  have b: "initialize sampleClient sampleWorld = (Inr (), ready sampleClient, sampleWorld)"
    "query utc_format ''how?'' noOptions sampleClient sampleWorld =
       query utc_format ''how?'' noOptions (ready sampleClient) sampleWorld"
    using up by (elim exE conjE, simp)+
  have c: "query utc_format ''how?'' noOptions plainClient sampleWorld =
     (Inl (Error ''Embedding function not configured. Please provide one in the constructor.''),
      ready plainClient, sampleWorld)"
    using plain by (elim exE conjE) (simp add: names(3))
  show ?thesis by (intro conjI n r d a b never np c)
qed

text \<open>
  A client fresh from the constructor and a reachable store without the collection: the
  query creates the collection, searches and returns two results.
\<close>

theorem query_before_initialize_counterexample:
  "\<not> isInitialized sampleClient \<and>
   query utc_format ''how?'' noOptions sampleClient freshWorld =
     (Inr [\<lparr>qr_content = [], qr_metadata = [], score = 7 / 8, qr_id = Some ''c''\<rparr>,
           \<lparr>qr_content = ''beta'', qr_metadata = [], score = 3 / 4, qr_id = Some ''b''\<rparr>],
      sampleClient\<lparr>collection := Some ''project-docs'', isInitialized := True\<rparr>, sampleWorld)"
  by (simp add: query_def ensureInitialized_def initialize_def getCollection_def
      createCollection_def sampleClient_def freshWorld_def
      constructor_def sampleWorld_def noOptions_def sampleEmbedder_def buildWhere_def
      truthy_string_def collection_query_def limited_def processResults_def sampleResponse_def
      resultAt_def nth_or_def Let_def utc_format_def defaultThreshold_def)

subsection \<open>Clearing needs confirmation\<close>

text \<open>
  Claim C9. \<open>clearCollection\<close> with \<open>confirm\<close> false or omitted throws and leaves the
  client and the environment as they were: nothing is initialized, deleted or created.
  A call that changes the client or the environment was given \<open>confirm = true\<close>; and
  with \<open>confirm = true\<close>, a reachable store and a consistent client, the collection is
  deleted and created again, empty.
\<close>

theorem clearCollection_requires_confirmation:
  "(confirm = None \<or> confirm = Some False \<longrightarrow>
      clearCollection confirm c w = (Inl (Error ''Must confirm deletion by passing true''), c, w)) \<and>
   (snd (clearCollection confirm c w) \<noteq> (c, w) \<longrightarrow> confirm = Some True) \<and>
   (confirm = Some True \<and> reachable w \<and> consistent c w \<longrightarrow>
      clearCollection confirm c w =
        (Inr (), c\<lparr>collection := Some (collectionName c), isInitialized := True\<rparr>,
         w\<lparr>collections := (collections w)(collectionName c \<mapsto> [])\<rparr>))"
proof (intro conjI impI)
  assume "confirm = None \<or> confirm = Some False"
  then show "clearCollection confirm c w = (Inl (Error ''Must confirm deletion by passing true''), c, w)"
    by (auto simp: clearCollection_def)
next
  assume changed: "snd (clearCollection confirm c w) \<noteq> (c, w)"
  show "confirm = Some True"
  proof (rule ccontr)
    assume "confirm \<noteq> Some True"
    then have "confirm = None \<or> confirm = Some False" by (cases confirm) auto
    then have "clearCollection confirm c w = (Inl (Error ''Must confirm deletion by passing true''), c, w)"
      by (auto simp: clearCollection_def)
    then show False using changed by simp
  qed
next
  assume h: "confirm = Some True \<and> reachable w \<and> consistent c w"
  show "clearCollection confirm c w =
        (Inr (), c\<lparr>collection := Some (collectionName c), isInitialized := True\<rparr>,
         w\<lparr>collections := (collections w)(collectionName c \<mapsto> [])\<rparr>)"
  proof (cases "isInitialized c")
    case True
    then have "collection c = Some (collectionName c)" "collections w (collectionName c) \<noteq> None"
      using h by (simp_all add: consistent_def)
    then show ?thesis using h True
      by (auto simp: clearCollection_def ensureInitialized_def deleteCollection_def createCollection_def)
  next
    case False
    show ?thesis
    proof (cases "collections w (collectionName c)")
      case None
      then show ?thesis using h False
        by (simp add: clearCollection_def ensureInitialized_def initialize_def getCollection_def
            deleteCollection_def createCollection_def)
    next
      case (Some entries)
      then show ?thesis using h False
        by (simp add: clearCollection_def ensureInitialized_def initialize_def getCollection_def
            deleteCollection_def createCollection_def)
    qed
  qed
qed

theorem clearCollection_requires_confirmation_witness:
  "clearCollection None sampleClient storedWorld =
     (Inl (Error ''Must confirm deletion by passing true''), sampleClient, storedWorld) \<and>
   clearCollection (Some False) sampleClient storedWorld =
     (Inl (Error ''Must confirm deletion by passing true''), sampleClient, storedWorld) \<and>
   reachable storedWorld \<and> consistent sampleClient storedWorld \<and>
   snd (clearCollection (Some True) sampleClient storedWorld) \<noteq> (sampleClient, storedWorld) \<and>
   clearCollection (Some True) sampleClient storedWorld =
     (Inr (), sampleClient\<lparr>collection := Some ''project-docs'', isInitialized := True\<rparr>,
      storedWorld\<lparr>collections := (collections storedWorld)(''project-docs'' \<mapsto> [])\<rparr>)"
proof -
  have r: "reachable storedWorld" by (simp add: storedWorld_def sampleWorld_def)
  have k: "consistent sampleClient storedWorld"
    by (simp add: consistent_def sampleClient_def constructor_def)
  have n: "collectionName sampleClient = ''project-docs''"
    by (simp add: sampleClient_def constructor_def)
  note t = clearCollection_requires_confirmation[of _ sampleClient storedWorld, unfolded n]
  have a: "clearCollection None sampleClient storedWorld =
     (Inl (Error ''Must confirm deletion by passing true''), sampleClient, storedWorld)"
    using t[of None] by blast
  have b: "clearCollection (Some False) sampleClient storedWorld =
     (Inl (Error ''Must confirm deletion by passing true''), sampleClient, storedWorld)"
    using t[of "Some False"] by blast
  have c: "clearCollection (Some True) sampleClient storedWorld =
     (Inr (), sampleClient\<lparr>collection := Some ''project-docs'', isInitialized := True\<rparr>,
      storedWorld\<lparr>collections := (collections storedWorld)(''project-docs'' \<mapsto> [])\<rparr>)"
    using t[of "Some True"] r k by blast
  have d: "snd (clearCollection (Some True) sampleClient storedWorld) \<noteq> (sampleClient, storedWorld)"
    unfolding c by (simp add: sampleClient_def constructor_def)
  show ?thesis by (intro conjI a b r k d c)
qed

section \<open>Backup codec: \<^verbatim>\<open>exportBackup\<close> and \<^verbatim>\<open>importBackup\<close> (src/lib/client.ts)\<close>

subsection \<open>Lines of a file\<close>

text \<open>
  \<^verbatim>\<open>line.trim()\<close> removes white space at both ends; below \<open>U+0100\<close> the white space
  and line terminators are tab, line feed, vertical tab, form feed, carriage return,
  space and the no-break space. A line is kept by \<^verbatim>\<open>filter(line => line.trim())\<close>
  when something is left of it.
\<close>

definition isWhiteSpace :: "char \<Rightarrow> bool" where
  "isWhiteSpace ch = ((of_char ch :: nat) \<in> {9, 10, 11, 12, 13, 32, 160})"

definition trim :: "string \<Rightarrow> string" where
  "trim s = rev (dropWhile isWhiteSpace (rev (dropWhile isWhiteSpace s)))"

definition backupLines :: "string \<Rightarrow> string list" where
  "backupLines content = filter (\<lambda>line. trim line \<noteq> []) (js_split content (CHR 0x0A))"

subsection \<open>Statistics, header and records\<close>

text \<open>
  \<^verbatim>\<open>getStats\<close> counts in two plain objects, \<^verbatim>\<open>categories\<close> and \<^verbatim>\<open>sources\<close>.
  What it stores under a key is a number, or, for a key that names a function of
  \<^verbatim>\<open>Object.prototype\<close>, a string.
\<close>

datatype tally = Count nat | Text string

record CollectionStats =
  totalDocuments :: nat
  categories :: "(string \<times> tally) list"
  sources :: "(string \<times> tally) list"
  lastUpdated :: string
  averageChunkSize :: nat

record BackupHeader =
  version :: string
  exportDate :: string
  stats :: CollectionStats

record BackupLine =
  line_id :: string
  line_content :: string
  line_metadata :: js_object

text \<open>
  \<^verbatim>\<open>JSON.stringify\<close> and \<^verbatim>\<open>JSON.parse\<close> are parameters, at the types the two
  functions use them: the header object and the record \<^verbatim>\<open>{id, content, metadata}\<close>
  are printed, and a line is parsed as a header or as a document. \<open>None\<close> is a
  \<^verbatim>\<open>SyntaxError\<close>: the line is not JSON. Lines that are JSON of another shape than
  the one the code casts them to are not represented.
\<close>

record json_codec =
  stringifyHeader :: "BackupHeader \<Rightarrow> string"
  stringifyLine :: "BackupLine \<Rightarrow> string"
  parseHeader :: "string \<Rightarrow> BackupHeader option"
  parseDocument :: "string \<Rightarrow> VectorDocument option"

subsection \<open>\<^verbatim>\<open>getAllDocuments\<close> and \<^verbatim>\<open>getStats\<close>\<close>

text \<open>
  A document as \<^verbatim>\<open>getAllDocuments\<close> builds it from an entry of the store: a missing
  document is the empty string, missing metadata the empty object, and there is no
  embedding, since \<^verbatim>\<open>collection.get\<close> is called without asking for embeddings.
\<close>

definition documentOf :: "stored \<Rightarrow> VectorDocument" where
  "documentOf e =
     \<lparr>doc_id = stored_id e,
      doc_content = (case stored_document e of None \<Rightarrow> [] | Some d \<Rightarrow> d),
      doc_metadata = (case stored_metadata e of None \<Rightarrow> [] | Some m \<Rightarrow> m),
      doc_embedding = None\<rparr>"

definition getAllDocuments :: "nat option \<Rightarrow> client \<Rightarrow> world \<Rightarrow> VectorDocument list outcome" where
  "getAllDocuments maxCount c w =
     (case ensureInitialized c w of
        (Inl e, c', w') \<Rightarrow> (Inl e, c', w')
      | (Inr _, c', w') \<Rightarrow>
          (case collection c' of
             None \<Rightarrow> (Inl (Error ''Collection not initialized''), c', w')
           | Some handle \<Rightarrow>
               (case collection_get handle maxCount w' of
                  Inl e \<Rightarrow> (Inl e, c', w')
                | Inr results \<Rightarrow> (Inr (map documentOf results), c', w'))))"

text \<open>
  \<^verbatim>\<open>getStats\<close>: the count of the collection, and over a sample of at most 1000
  entries the number of entries per truthy \<^verbatim>\<open>category\<close> and \<^verbatim>\<open>source\<close> and the
  rounded mean length of the documents. \<^verbatim>\<open>Math.round\<close> of a quotient of two natural
  numbers rounds half up.
\<close>

fun truthy :: "jsvalue \<Rightarrow> bool" where
  "truthy JNull = False"
| "truthy JUndefined = False"
| "truthy (JString s) = (s \<noteq> [])"
| "truthy (JNumber n) = (n \<noteq> 0)"
| "truthy (JBoolean b) = b"
| "truthy v = True"

text \<open>
  \<^verbatim>\<open>counts[key] = (counts[key] || 0) + 1\<close> on a plain object. The read
  \<^verbatim>\<open>counts[key]\<close> gives the own property; where there is none it gives what
  \<^verbatim>\<open>Object.prototype\<close> has under that name: a function under the names below, the
  prototype itself under \<^verbatim>\<open>__proto__\<close>, and \<^verbatim>\<open>undefined\<close> under any other name. A
  number counts up; \<^verbatim>\<open>undefined\<close> gives 1; to a string, and to a function or an
  object, which convert to strings, \<^verbatim>\<open>+ 1\<close> appends the character \<^verbatim>\<open>1\<close>. The
  assignment is the one of \<open>assign\<close>; the list holds the properties in the order in
  which they were created.
\<close>

definition prototypeFunctions :: "string list" where
  "prototypeFunctions =
     [''constructor'', ''__defineGetter__'', ''__defineSetter__'', ''hasOwnProperty'',
      ''__lookupGetter__'', ''__lookupSetter__'', ''isPrototypeOf'', ''propertyIsEnumerable'',
      ''toString'', ''valueOf'', ''toLocaleString'']"

definition incremented :: "js_format \<Rightarrow> (string \<times> tally) list \<Rightarrow> string \<Rightarrow> tally" where
  "incremented f counts key =
     (case map_of counts key of
        Some (Count n) \<Rightarrow> Count (n + 1)
      | Some (Text s) \<Rightarrow> (if s = [] then Count 1 else Text (s @ ''1''))
      | None \<Rightarrow>
          if key = ''__proto__'' then Text ''[object Object]1''
          else if key \<in> set prototypeFunctions then Text (nativeText f key @ ''1'')
          else Count 1)"

definition countUnder ::
  "js_format \<Rightarrow> string \<Rightarrow> stored \<Rightarrow> (string \<times> tally) list \<Rightarrow> (string \<times> tally) list" where
  "countUnder f field e counts =
     (case (case stored_metadata e of None \<Rightarrow> None | Some m \<Rightarrow> map_of m field) of
        None \<Rightarrow> counts
      | Some v \<Rightarrow>
          if truthy v
          then assign counts (ToString f v) (incremented f counts (ToString f v))
          else counts)"

fun statsLoop ::
  "js_format \<Rightarrow> stored list \<Rightarrow> (string \<times> tally) list \<times> (string \<times> tally) list \<times> nat \<Rightarrow>
   (string \<times> tally) list \<times> (string \<times> tally) list \<times> nat" where
  "statsLoop f [] acc = acc"
| "statsLoop f (e # sample) (cats, srcs, totalChunkSize) =
     statsLoop f sample
       (countUnder f ''category'' e cats, countUnder f ''source'' e srcs,
        totalChunkSize + (case stored_document e of None \<Rightarrow> 0 | Some content \<Rightarrow> length content))"

definition Math_round_div :: "nat \<Rightarrow> nat \<Rightarrow> nat" where
  "Math_round_div totalSize n = (2 * totalSize + n) div (2 * n)"

definition computeStats :: "js_format \<Rightarrow> nat \<Rightarrow> stored list \<Rightarrow> string \<Rightarrow> CollectionStats" where
  "computeStats f count sample timestamp =
     (case statsLoop f sample ([], [], 0) of
        (cats, srcs, totalChunkSize) \<Rightarrow>
          \<lparr>totalDocuments = count, categories = cats, sources = srcs,
           lastUpdated = timestamp,
           averageChunkSize =
             (if length sample > 0 then Math_round_div totalChunkSize (length sample) else 0)\<rparr>)"

definition getStats :: "js_format \<Rightarrow> client \<Rightarrow> world \<Rightarrow> CollectionStats outcome" where
  "getStats f c w =
     (case ensureInitialized c w of
        (Inl e, c', w') \<Rightarrow> (Inl e, c', w')
      | (Inr _, c', w') \<Rightarrow>
          (case collection c' of
             None \<Rightarrow> (Inl (Error ''Collection not initialized''), c', w')
           | Some handle \<Rightarrow>
               (case collection_count handle w' of
                  Inl e \<Rightarrow> (Inl e, c', w')
                | Inr count \<Rightarrow>
                    (case collection_get handle (Some 1000) w' of
                       Inl e \<Rightarrow> (Inl e, c', w')
                     | Inr sample \<Rightarrow>
                         (case readClock w' of
                            (timestamp, w'') \<Rightarrow>
                              (Inr (computeStats f count sample timestamp), c', w''))))))"

subsection \<open>\<^verbatim>\<open>addDocuments\<close>\<close>

text \<open>
  Documents without embedding get one from the embedding function, in order; the
  metadata of every document is sanitized; then all go to the store in one
  \<^verbatim>\<open>collection.add\<close>. The function writes the embeddings into the documents of its
  caller; the model returns nothing about that.
\<close>

fun embedLoop :: "(string \<Rightarrow> real list option) \<Rightarrow> VectorDocument list \<Rightarrow> js_error + VectorDocument list" where
  "embedLoop generate [] = Inr []"
| "embedLoop generate (doc # docs) =
     (if doc_embedding doc = None
      then (case generate (doc_content doc) of
              None \<Rightarrow> Inl EmbeddingError
            | Some e \<Rightarrow> (case embedLoop generate docs of
                          Inl err \<Rightarrow> Inl err
                        | Inr docs' \<Rightarrow> Inr (doc\<lparr>doc_embedding := Some e\<rparr> # docs')))
      else (case embedLoop generate docs of
              Inl err \<Rightarrow> Inl err
            | Inr docs' \<Rightarrow> Inr (doc # docs')))"

fun sanitizeAll :: "js_format \<Rightarrow> VectorDocument list \<Rightarrow> js_error + stored list" where
  "sanitizeAll f [] = Inr []"
| "sanitizeAll f (d # ds) =
     (case sanitizeMetadata f (doc_metadata d) of
        Inl e \<Rightarrow> Inl e
      | Inr m \<Rightarrow>
          (case sanitizeAll f ds of
             Inl e \<Rightarrow> Inl e
           | Inr es \<Rightarrow>
               Inr (\<lparr>stored_id = doc_id d, stored_document = Some (doc_content d),
                     stored_metadata = Some m,
                     stored_embedding = (case doc_embedding d of None \<Rightarrow> [] | Some e \<Rightarrow> e)\<rparr> # es)))"

definition addDocuments :: "js_format \<Rightarrow> VectorDocument list \<Rightarrow> client \<Rightarrow> world \<Rightarrow> unit outcome" where
  "addDocuments f documents c w =
     (case ensureInitialized c w of
        (Inl e, c', w') \<Rightarrow> (Inl e, c', w')
      | (Inr _, c', w') \<Rightarrow>
          (case collection c' of
             None \<Rightarrow> (Inl (Error ''Collection not initialized''), c', w')
           | Some handle \<Rightarrow>
               if length documents = 0 then (Inr (), c', w')
               else
                 (case (if length (filter (\<lambda>d. doc_embedding d = None) documents) > 0
                        then (case embeddingFunction c' of
                                None \<Rightarrow> Inl (Error ''Embeddings required but no embedding function provided'')
                              | Some generate \<Rightarrow> embedLoop generate documents)
                        else Inr documents) of
                    Inl e \<Rightarrow> (Inl e, c', w')
                  | Inr embedded \<Rightarrow>
                      (case sanitizeAll f embedded of
                         Inl e \<Rightarrow> (Inl e, c', w')
                       | Inr entries \<Rightarrow>
                           (case collection_add handle entries w' of
                              (Inl e, w'') \<Rightarrow> (Inl e, c', w'')
                            | (Inr _, w'') \<Rightarrow> (Inr (), c', w''))))))"

subsection \<open>\<^verbatim>\<open>exportBackup\<close> and \<^verbatim>\<open>importBackup\<close>\<close>

definition lineOf :: "VectorDocument \<Rightarrow> BackupLine" where
  "lineOf doc = \<lparr>line_id = doc_id doc, line_content = doc_content doc, line_metadata = doc_metadata doc\<rparr>"

definition exportBackup :: "js_format \<Rightarrow> json_codec \<Rightarrow> string \<Rightarrow> client \<Rightarrow> world \<Rightarrow> unit outcome" where
  "exportBackup f codec outputPath c w =
     (case ensureInitialized c w of
        (Inl e, c1, w1) \<Rightarrow> (Inl e, c1, w1)
      | (Inr _, c1, w1) \<Rightarrow>
          (case getAllDocuments None c1 w1 of
             (Inl e, c2, w2) \<Rightarrow> (Inl e, c2, w2)
           | (Inr documents, c2, w2) \<Rightarrow>
               (case getStats f c2 w2 of
                  (Inl e, c3, w3) \<Rightarrow> (Inl e, c3, w3)
                | (Inr collectionStats, c3, w3) \<Rightarrow>
                    (case readClock w3 of
                       (date, w4) \<Rightarrow>
                         (let jsonl = join_js (map (\<lambda>doc. stringifyLine codec (lineOf doc)) documents)
                                        [CHR 0x0A];
                              fullBackup =
                                stringifyHeader codec
                                  \<lparr>version = ''1.0'', exportDate = date, stats = collectionStats\<rparr>
                                @ [CHR 0x0A] @ jsonl
                          in (Inr (), c3, w4\<lparr>files := (files w4)(outputPath \<mapsto> fullBackup)\<rparr>))))))"

fun parseLoop :: "json_codec \<Rightarrow> string list \<Rightarrow> js_error + VectorDocument list" where
  "parseLoop codec [] = Inr []"
| "parseLoop codec (line # lines) =
     (case parseDocument codec line of
        None \<Rightarrow> Inl SyntaxError
      | Some doc \<Rightarrow> (case parseLoop codec lines of
                       Inl e \<Rightarrow> Inl e
                     | Inr docs \<Rightarrow> Inr (doc # docs)))"

function batchLoop ::
  "js_format \<Rightarrow> VectorDocument list \<Rightarrow> nat \<Rightarrow> client \<Rightarrow> world \<Rightarrow> unit outcome" where
  "batchLoop f documents i c w =
     (if i < length documents
      then (case addDocuments f (slice documents (int i) (int i + 100)) c w of
              (Inl e, c', w') \<Rightarrow> (Inl e, c', w')
            | (Inr _, c', w') \<Rightarrow> batchLoop f documents (i + 100) c' w')
      else (Inr (), c, w))"
  by pat_completeness auto
termination
  by (relation "measure (\<lambda>(f, documents, i, c, w). length documents - i)") auto

declare batchLoop.simps [simp del]

definition importBackup ::
  "js_format \<Rightarrow> json_codec \<Rightarrow> string \<Rightarrow> bool \<Rightarrow> client \<Rightarrow> world \<Rightarrow> unit outcome" where
  "importBackup f codec inputPath clearExisting c w =
     (case ensureInitialized c w of
        (Inl e, c1, w1) \<Rightarrow> (Inl e, c1, w1)
      | (Inr _, c1, w1) \<Rightarrow>
          (case files w1 inputPath of
             None \<Rightarrow> (Inl (Error (''Backup file not found: '' @ inputPath)), c1, w1)
           | Some content \<Rightarrow>
               (let lines = backupLines content
                in if length lines = 0 then (Inl (Error ''Backup file is empty''), c1, w1)
                   else
                     (case parseHeader codec (lines ! 0) of
                        None \<Rightarrow> (Inl SyntaxError, c1, w1)
                      | Some header \<Rightarrow>
                          (case parseLoop codec (drop 1 lines) of
                             Inl e \<Rightarrow> (Inl e, c1, w1)
                           | Inr documents \<Rightarrow>
                               (case (if clearExisting \<and> collection c1 \<noteq> None
                                      then (case deleteCollection (collectionName c1) w1 of
                                              (Inl e, w2) \<Rightarrow> (Inl e, c1, w2)
                                            | (Inr _, w2) \<Rightarrow>
                                                (case createCollection (collectionName c1) w2 of
                                                   (Inl e, w3) \<Rightarrow> (Inl e, c1, w3)
                                                 | (Inr handle, w3) \<Rightarrow>
                                                     (Inr (), c1\<lparr>collection := Some handle\<rparr>, w3)))
                                      else (Inr (), c1, w1)) of
                                  (Inl e, c2, w2) \<Rightarrow> (Inl e, c2, w2)
                                | (Inr _, c2, w2) \<Rightarrow> batchLoop f documents 0 c2 w2))))))"

subsection \<open>Notions for the statements\<close>

text \<open>
  Metadata that \<open>sanitizeMetadata\<close> leaves as it is: every key once, none of them
  \<^verbatim>\<open>__proto__\<close>, and every value a string, a number or a boolean. And the header and
  the text that \<^verbatim>\<open>exportBackup\<close> writes for a collection.
\<close>

definition flatMetadata :: "js_object \<Rightarrow> bool" where
  "flatMetadata m =
     (distinct (map fst m) \<and> ''__proto__'' \<notin> set (map fst m) \<and> list_all isScalar (map snd m))"

definition exportHeader :: "js_format \<Rightarrow> world \<Rightarrow> stored list \<Rightarrow> BackupHeader" where
  "exportHeader f w entries =
     \<lparr>version = ''1.0'', exportDate = clock w (ticks w + 1),
      stats = computeStats f (length entries) (take 1000 entries) (clock w (ticks w))\<rparr>"

definition exportText :: "js_format \<Rightarrow> json_codec \<Rightarrow> world \<Rightarrow> stored list \<Rightarrow> string" where
  "exportText f codec w entries =
     stringifyHeader codec (exportHeader f w entries) @ [CHR 0x0A] @
     join_js (map (\<lambda>e. stringifyLine codec (lineOf (documentOf e))) entries) [CHR 0x0A]"

subsection \<open>A collection, its backup and a codec for concrete runs\<close>

text \<open>
  Two entries, the header and the two lines that \<^verbatim>\<open>JSON.stringify\<close> prints for them,
  a codec that is JSON on these, and a file whose second line is blank and whose last
  line is cut off.
\<close>

definition sampleEntries :: "stored list" where
  "sampleEntries =
     [\<lparr>stored_id = ''a1'', stored_document = Some ''Alpha text'',
       stored_metadata = Some [(''source'', JString ''docs''), (''priority'', JNumber 60)],
       stored_embedding = [1]\<rparr>,
      \<lparr>stored_id = ''b2'', stored_document = Some ''Beta'',
       stored_metadata = Some [(''tags'', JString ''a,b'')],
       stored_embedding = [2]\<rparr>]"

definition sampleDocument1 :: VectorDocument where
  "sampleDocument1 =
     \<lparr>doc_id = ''a1'', doc_content = ''Alpha text'',
      doc_metadata = [(''source'', JString ''docs''), (''priority'', JNumber 60)],
      doc_embedding = None\<rparr>"

definition sampleDocument2 :: VectorDocument where
  "sampleDocument2 =
     \<lparr>doc_id = ''b2'', doc_content = ''Beta'',
      doc_metadata = [(''tags'', JString ''a,b'')], doc_embedding = None\<rparr>"

definition sampleHeader :: BackupHeader where
  "sampleHeader =
     \<lparr>version = ''1.0'', exportDate = ''1970-01-01T00:00:00.001Z'',
      stats = \<lparr>totalDocuments = 2, categories = [], sources = [(''docs'', Count 1)],
                lastUpdated = ''1970-01-01T00:00:00.000Z'', averageChunkSize = 7\<rparr>\<rparr>"

definition sampleHeaderText :: string where
  \<open>sampleHeaderText =
     ''{"version":"1.0","exportDate":"1970-01-01T00:00:00.001Z","stats":{"totalDocuments":2,"categories":{},"sources":{"docs":1},"lastUpdated":"1970-01-01T00:00:00.000Z","averageChunkSize":7}}''\<close>

definition sampleLine1 :: string where
  \<open>sampleLine1 = ''{"id":"a1","content":"Alpha text","metadata":{"source":"docs","priority":60}}''\<close>

definition sampleLine2 :: string where
  \<open>sampleLine2 = ''{"id":"b2","content":"Beta","metadata":{"tags":"a,b"}}''\<close>

definition sampleCodec :: json_codec where
  "sampleCodec =
     \<lparr>stringifyHeader = (\<lambda>h. if h = sampleHeader then sampleHeaderText else ''{}''),
      stringifyLine = (\<lambda>l. if l = lineOf sampleDocument1 then sampleLine1
                           else if l = lineOf sampleDocument2 then sampleLine2 else ''{}''),
      parseHeader = (\<lambda>s. if s = sampleHeaderText then Some sampleHeader else None),
      parseDocument = (\<lambda>s. if s = sampleLine1 then Some sampleDocument1
                           else if s = sampleLine2 then Some sampleDocument2 else None)\<rparr>"

definition backupWorld :: world where
  "backupWorld = sampleWorld\<lparr>collections := [''project-docs'' \<mapsto> sampleEntries]\<rparr>"

definition brokenText :: string where
  \<open>brokenText =
     sampleHeaderText @ [CHR 0x0A] @ ''   '' @ [CHR 0x0A] @ sampleLine1 @ [CHR 0x0A] @ ''{"id":"b2",''\<close>

definition brokenWorld :: world where
  "brokenWorld = backupWorld\<lparr>files := [''broken.jsonl'' \<mapsto> brokenText]\<rparr>"

subsection \<open>What a call leaves unchanged, and which errors it throws\<close>

lemma initialize_frame:
  assumes "initialize c w = (r, c', w')"
  shows "files w' = files w \<and> entriesOf w' = entriesOf w \<and> reachable w' = reachable w \<and>
         clock w' = clock w \<and> ticks w' = ticks w \<and> search w' = search w \<and>
         failure w' = failure w \<and>
         collectionName c' = collectionName c \<and> embeddingFunction c' = embeddingFunction c"
  using assms
  by (auto simp: initialize_def getCollection_def createCollection_def entriesOf_def fun_eq_iff
      split: if_splits sum.splits)

lemma ensureInitialized_frame:
  assumes "ensureInitialized c w = (r, c', w')"
  shows "files w' = files w \<and> entriesOf w' = entriesOf w \<and> reachable w' = reachable w \<and>
         clock w' = clock w \<and> ticks w' = ticks w \<and> search w' = search w \<and>
         failure w' = failure w \<and>
         collectionName c' = collectionName c \<and> embeddingFunction c' = embeddingFunction c"
  using assms initialize_frame[of c w r c' w']
  by (auto simp: ensureInitialized_def split: if_splits)

lemma ensureInitialized_idle:
  "isInitialized c \<Longrightarrow> ensureInitialized c w = (Inr (), c, w)"
  by (simp add: ensureInitialized_def)

lemma parseLoop_Inl:
  "(\<exists>e. parseLoop codec ls = Inl e) = (\<exists>line \<in> set ls. parseDocument codec line = None)"
  by (induction ls) (auto split: option.splits sum.splits)

lemma parseLoop_error: "parseLoop codec ls = Inl e \<Longrightarrow> e = SyntaxError"
  by (induction ls arbitrary: e) (auto split: option.splits sum.splits)

lemma importBackup_malformed:
  assumes "files w inputPath = Some content"
    and "backupLines content \<noteq> []"
    and "parseHeader codec (hd (backupLines content)) = None \<or>
         (\<exists>line \<in> set (tl (backupLines content)). parseDocument codec line = None)"
  shows "\<exists>e c' w'. importBackup f codec inputPath clearExisting c w = (Inl e, c', w') \<and>
           (c', w') = snd (ensureInitialized c w) \<and>
           (fst (ensureInitialized c w) = Inr () \<longrightarrow> e = SyntaxError) \<and>
           files w' = files w \<and>
           (\<forall>name. entriesOf w' name = entriesOf w name) \<and>
           (isInitialized c \<longrightarrow> c' = c \<and> w' = w)"
proof -
  obtain r c1 w1 where ei: "ensureInitialized c w = (r, c1, w1)"
    by (cases "ensureInitialized c w") auto
  note fr = ensureInitialized_frame[OF ei]
  have idle: "isInitialized c \<longrightarrow> c1 = c \<and> w1 = w"
    using ei by (auto simp: ensureInitialized_idle)
  show ?thesis
  proof (cases r)
    case (Inl e)
    then have "importBackup f codec inputPath clearExisting c w = (Inl e, c1, w1)"
      using ei by (simp add: importBackup_def)
    then show ?thesis using ei fr idle Inl by auto
  next
    case (Inr u)
    have fl: "files w1 inputPath = Some content" using fr assms(1) by simp
    have hd0: "backupLines content ! 0 = hd (backupLines content)"
      using assms(2) by (simp add: hd_conv_nth)
    have "importBackup f codec inputPath clearExisting c w = (Inl SyntaxError, c1, w1)"
    proof (cases "parseHeader codec (hd (backupLines content))")
      case None
      then show ?thesis using ei Inr fl assms(2) hd0
        by (simp add: importBackup_def Let_def)
    next
      case (Some header)
      then have "\<exists>line \<in> set (tl (backupLines content)). parseDocument codec line = None"
        using assms(3) by simp
      then obtain e where "parseLoop codec (drop 1 (backupLines content)) = Inl e"
        using parseLoop_Inl[of codec "drop 1 (backupLines content)"] by (auto simp: drop_Suc)
      moreover from this have "e = SyntaxError" by (rule parseLoop_error)
      ultimately show ?thesis using ei Inr fl assms(2) hd0 Some
        by (simp add: importBackup_def Let_def)
    qed
    then show ?thesis using ei fr idle Inr by auto
  qed
qed


lemma sanitizeLoop_error: "sanitizeLoop f entries acc = Inl e \<Longrightarrow> e = RangeError"
proof (induction entries arbitrary: acc)
  case Nil
  then show ?case by simp
next
  case (Cons p entries)
  obtain k v where p: "p = (k, v)" by (cases p)
  show ?case
  proof (cases "v = JDate InvalidDate")
    case True
    then show ?thesis using Cons.prems p by simp
  next
    case False
    show ?thesis using Cons.prems unfolding p sanitizeLoop_step[OF False] by (rule Cons.IH)
  qed
qed

lemma sanitizeAll_error: "sanitizeAll f docs = Inl e \<Longrightarrow> e = RangeError"
  by (induction docs arbitrary: e)
    (auto simp: sanitizeMetadata_def split: sum.splits dest: sanitizeLoop_error)

lemma embedLoop_error: "embedLoop generate docs = Inl e \<Longrightarrow> e = EmbeddingError"
  by (induction docs arbitrary: e) (auto split: sum.splits option.splits if_splits)

lemma ensureInitialized_error:
  "ensureInitialized c w = (Inl e, c', w') \<Longrightarrow>
   e = Error (''Failed to initialize vector DB: '' @ failure w)"
  by (auto simp: ensureInitialized_def initialize_def getCollection_def createCollection_def
      split: if_splits sum.splits)

lemma collection_add_error: "collection_add handle entries w = (Inl e, w') \<Longrightarrow> e = BackendError"
  by (auto simp: collection_add_def split: option.splits if_splits)

lemma addDocuments_no_SyntaxError: "fst (addDocuments f docs c w) \<noteq> Inl SyntaxError"
proof
  assume a: "fst (addDocuments f docs c w) = Inl SyntaxError"
  obtain r c1 w1 where ei: "ensureInitialized c w = (r, c1, w1)"
    by (cases "ensureInitialized c w") auto
  show False
  proof (cases r)
    case (Inl e)
    then show ?thesis using a ei ensureInitialized_error[of c w e c1 w1]
      by (simp add: addDocuments_def)
  next
    case (Inr u)
    note ru = Inr
    show ?thesis
    proof (cases "collection c1")
      case None
      then show ?thesis using a ei ru by (simp add: addDocuments_def)
    next
      case (Some handle)
      note h = Some
      define embedded where "embedded =
        (if length (filter (\<lambda>d. doc_embedding d = None) docs) > 0
         then (case embeddingFunction c1 of
                 None \<Rightarrow> Inl (Error ''Embeddings required but no embedding function provided'')
               | Some generate \<Rightarrow> embedLoop generate docs)
         else Inr docs)"
      have emb_err: "embedded = Inl e \<Longrightarrow> e \<noteq> SyntaxError" for e
        unfolding embedded_def
        by (auto split: if_splits option.splits dest: embedLoop_error)
      have unfold: "addDocuments f docs c w =
          (if length docs = 0 then (Inr (), c1, w1)
           else (case embedded of
                   Inl e \<Rightarrow> (Inl e, c1, w1)
                 | Inr em \<Rightarrow>
                     (case sanitizeAll f em of
                        Inl e \<Rightarrow> (Inl e, c1, w1)
                      | Inr entries \<Rightarrow>
                          (case collection_add handle entries w1 of
                             (Inl e, w'') \<Rightarrow> (Inl e, c1, w'')
                           | (Inr _, w'') \<Rightarrow> (Inr (), c1, w'')))))"
        using ei ru h by (simp add: addDocuments_def embedded_def)
      show ?thesis
        using a emb_err unfolding unfold
        by (auto split: if_splits sum.splits prod.splits
            dest: sanitizeAll_error collection_add_error)
    qed
  qed
qed

lemma batchLoop_no_SyntaxError: "fst (batchLoop f docs i c w) \<noteq> Inl SyntaxError"
proof (induction f docs i c w rule: batchLoop.induct)
  case (1 f documents i c w)
  show ?case
  proof (cases "i < length documents")
    case False
    then show ?thesis by (simp add: batchLoop.simps)
  next
    case True
    obtain r c' w' where a: "addDocuments f (slice documents (int i) (int i + 100)) c w = (r, c', w')"
      by (cases "addDocuments f (slice documents (int i) (int i + 100)) c w") auto
    show ?thesis
    proof (cases r)
      case (Inl e)
      then have "e \<noteq> SyntaxError"
        using addDocuments_no_SyntaxError[of f "slice documents (int i) (int i + 100)" c w] a
        by auto
      then show ?thesis using True a Inl by (simp add: batchLoop.simps)
    next
      case (Inr u)
      from "1.IH"[OF True a[symmetric] Inr refl] show ?thesis
        using True a Inr by (simp add: batchLoop.simps[of f documents i c w])
    qed
  qed
qed

lemma importBackup_wellformed_no_SyntaxError:
  assumes "files w inputPath = Some content"
    and "backupLines content \<noteq> []"
    and "parseHeader codec (hd (backupLines content)) \<noteq> None"
    and "\<forall>line \<in> set (tl (backupLines content)). parseDocument codec line \<noteq> None"
  shows "fst (importBackup f codec inputPath clearExisting c w) \<noteq> Inl SyntaxError"
proof -
  obtain r c1 w1 where ei: "ensureInitialized c w = (r, c1, w1)"
    by (cases "ensureInitialized c w") auto
  note fr = ensureInitialized_frame[OF ei]
  show ?thesis
  proof (cases r)
    case (Inl e)
    then show ?thesis using ei ensureInitialized_error[of c w e c1 w1]
      by (simp add: importBackup_def)
  next
    case (Inr u)
    have fl: "files w1 inputPath = Some content" using fr assms(1) by simp
    have hd0: "backupLines content ! 0 = hd (backupLines content)"
      using assms(2) by (simp add: hd_conv_nth)
    obtain header where hdr: "parseHeader codec (hd (backupLines content)) = Some header"
      using assms(3) by auto
    have "\<not> (\<exists>e. parseLoop codec (drop 1 (backupLines content)) = Inl e)"
      unfolding parseLoop_Inl using assms(4) by (simp add: drop_Suc)
    then obtain documents where docs: "parseLoop codec (drop 1 (backupLines content)) = Inr documents"
      by (cases "parseLoop codec (drop 1 (backupLines content))") auto
    define cleared where "cleared =
      (if clearExisting \<and> collection c1 \<noteq> None
       then (case deleteCollection (collectionName c1) w1 of
               (Inl e, w2) \<Rightarrow> (Inl e, c1, w2)
             | (Inr _, w2) \<Rightarrow>
                 (case createCollection (collectionName c1) w2 of
                    (Inl e, w3) \<Rightarrow> (Inl e, c1, w3)
                  | (Inr handle, w3) \<Rightarrow> (Inr (), c1\<lparr>collection := Some handle\<rparr>, w3)))
       else (Inr (), c1, w1))"
    have cl_err: "fst cleared \<noteq> Inl SyntaxError"
      unfolding cleared_def
      by (auto simp: deleteCollection_def createCollection_def split: if_splits prod.splits sum.splits)
    have unfold: "importBackup f codec inputPath clearExisting c w =
        (case cleared of
           (Inl e, c2, w2) \<Rightarrow> (Inl e, c2, w2)
         | (Inr _, c2, w2) \<Rightarrow> batchLoop f documents 0 c2 w2)"
      using ei Inr fl assms(2) hd0 hdr docs
      by (simp add: importBackup_def Let_def cleared_def)
    show ?thesis
      unfolding unfold using cl_err batchLoop_no_SyntaxError
      by (auto split: prod.splits sum.splits)
  qed
qed

lemma backupLines_not_blank: "line \<in> set (backupLines content) \<Longrightarrow> trim line \<noteq> []"
  by (simp add: backupLines_def)

subsection \<open>Splitting what was joined\<close>

lemma js_split_no_separator: "ch \<notin> set a \<Longrightarrow> js_split a ch = [a]"
  by (induction a) auto

lemma js_split_append:
  "ch \<notin> set a \<Longrightarrow> js_split (a @ ch # b) ch = a # js_split b ch"
  by (induction a) auto

lemma js_split_join:
  "xs \<noteq> [] \<Longrightarrow> \<forall>x \<in> set xs. ch \<notin> set x \<Longrightarrow> js_split (join_js xs [ch]) ch = xs"
proof (induction xs "[ch]" rule: join_js.induct)
  case 1
  then show ?case by simp
next
  case (2 x)
  then show ?case by (simp add: js_split_no_separator)
next
  case (3 x y ys)
  then show ?case by (simp add: js_split_append)
qed

lemma trim_empty: "trim [] = []"
  by (simp add: trim_def)

lemma backupLines_export:
  assumes "CHR 0x0A \<notin> set h" "trim h \<noteq> []"
    and "\<forall>x \<in> set xs. CHR 0x0A \<notin> set x \<and> trim x \<noteq> []"
  shows "backupLines (h @ [CHR 0x0A] @ join_js xs [CHR 0x0A]) = h # xs"
proof (cases "xs = []")
  case True
  then show ?thesis using assms
    by (simp add: backupLines_def js_split_append trim_empty)
next
  case False
  have "js_split (h @ [CHR 0x0A] @ join_js xs [CHR 0x0A]) (CHR 0x0A) = h # xs"
    using assms False by (simp add: js_split_append js_split_join)
  moreover have "filter (\<lambda>line. trim line \<noteq> []) (h # xs) = h # xs"
    using assms by (simp add: filter_id_conv)
  ultimately show ?thesis by (simp only: backupLines_def)
qed

subsection \<open>Flat metadata and fresh ids\<close>

lemma update_fresh: "k \<notin> fst ` set acc \<Longrightarrow> AList.update k v acc = acc @ [(k, v)]"
  by (induction acc) auto

lemma sanitizeLoop_flat:
  assumes "distinct (map fst (acc @ m))" "\<forall>v \<in> snd ` set m. isScalar v"
    and "''__proto__'' \<notin> fst ` set m"
  shows "sanitizeLoop f m acc = Inr (acc @ m)"
  using assms
proof (induction m arbitrary: acc)
  case Nil
  then show ?case by simp
next
  case (Cons p m)
  obtain k v where p: "p = (k, v)" by (cases p)
  have sc: "isScalar v" using Cons.prems(2) p by simp
  have fresh: "k \<notin> fst ` set acc" using Cons.prems(1) p by auto
  have kp: "k \<noteq> ''__proto__''" using Cons.prems(3) p by auto
  have step: "sanitizeLoop f ((k, v) # m) acc = sanitizeLoop f m (AList.update k v acc)"
    using sc kp by (cases v) (simp_all add: isScalar_def assign_def)
  have "sanitizeLoop f m (acc @ [(k, v)]) = Inr ((acc @ [(k, v)]) @ m)"
    using Cons.prems p by (intro Cons.IH) auto
  then show ?case using step fresh p by (simp add: update_fresh)
qed

lemma sanitizeMetadata_flat:
  "distinct (map fst m) \<Longrightarrow> \<forall>v \<in> snd ` set m. isScalar v \<Longrightarrow> ''__proto__'' \<notin> fst ` set m \<Longrightarrow>
   sanitizeMetadata f m = Inr m"
  using sanitizeLoop_flat[of "[]" m f] by (simp add: sanitizeMetadata_def)

lemma upsert_fresh: "stored_id e \<notin> stored_id ` set acc \<Longrightarrow> upsert e acc = acc @ [e]"
  by (induction acc) auto

lemma foldl_upsert_distinct:
  "distinct (map stored_id (acc @ entries)) \<Longrightarrow>
   foldl (\<lambda>acc e. upsert e acc) acc entries = acc @ entries"
proof (induction entries arbitrary: acc)
  case Nil
  then show ?case by simp
next
  case (Cons e entries)
  have "upsert e acc = acc @ [e]" using Cons.prems by (intro upsert_fresh) auto
  moreover have "foldl (\<lambda>acc e. upsert e acc) (acc @ [e]) entries = (acc @ [e]) @ entries"
    using Cons.prems by (intro Cons.IH) simp
  ultimately show ?case by simp
qed

lemma sanitizeMetadata_flatMetadata: "flatMetadata m \<Longrightarrow> sanitizeMetadata f m = Inr m"
  by (rule sanitizeMetadata_flat) (auto simp: flatMetadata_def list_all_iff)

lemma embedLoop_ok:
  assumes "\<forall>d \<in> set docs. generate (doc_content d) \<noteq> None"
  shows "\<exists>em. embedLoop generate docs = Inr em \<and> map lineOf em = map lineOf docs"
  using assms
proof (induction docs)
  case Nil
  then show ?case by simp
next
  case (Cons d docs)
  then obtain em where em: "embedLoop generate docs = Inr em" "map lineOf em = map lineOf docs"
    by auto
  obtain e where e: "generate (doc_content d) = Some e" using Cons.prems by auto
  have "lineOf (d\<lparr>doc_embedding := Some e\<rparr>) = lineOf d" by (simp add: lineOf_def)
  then show ?case using em e by simp
qed

lemma sanitizeAll_ok:
  assumes "\<forall>d \<in> set em. flatMetadata (doc_metadata d)"
  shows "\<exists>entries. sanitizeAll f em = Inr entries \<and>
           map (\<lambda>e. lineOf (documentOf e)) entries = map lineOf em"
  using assms
proof (induction em)
  case Nil
  then show ?case by simp
next
  case (Cons d em)
  then obtain entries where en: "sanitizeAll f em = Inr entries"
    "map (\<lambda>e. lineOf (documentOf e)) entries = map lineOf em" by auto
  have "sanitizeMetadata f (doc_metadata d) = Inr (doc_metadata d)"
    using Cons.prems by (simp add: sanitizeMetadata_flatMetadata)
  then show ?case using en by (simp add: lineOf_def documentOf_def)
qed

lemma lineOf_flat: "lineOf d' = lineOf d \<Longrightarrow> doc_metadata d' = doc_metadata d"
  by (simp add: lineOf_def)

lemma addDocuments_ok:
  assumes "isInitialized c" "collection c = Some name" "reachable w"
    and "collections w name = Some existing"
    and "embeddingFunction c = Some generate"
    and "\<forall>d \<in> set docs. generate (doc_content d) \<noteq> None \<and> flatMetadata (doc_metadata d)"
  shows "\<exists>entries. addDocuments f docs c w =
            (Inr (), c, w\<lparr>collections := (collections w)(name \<mapsto>
               foldl (\<lambda>acc e. upsert e acc) existing entries)\<rparr>) \<and>
           map (\<lambda>e. lineOf (documentOf e)) entries = map lineOf docs"
proof (cases "docs = []")
  case True
  have "(collections w)(name \<mapsto> existing) = collections w" using assms(4) by auto
  then show ?thesis using True assms(1,2)
    by (intro exI[of _ "[]"]) (simp add: addDocuments_def ensureInitialized_def)
next
  case False
  define embedded where "embedded =
        (if length (filter (\<lambda>d. doc_embedding d = None) docs) > 0
         then embedLoop generate docs else Inr docs)"
  have "\<exists>em. embedded = Inr em \<and> map lineOf em = map lineOf docs"
  proof (cases "filter (\<lambda>d. doc_embedding d = None) docs = []")
    case True
    then show ?thesis by (simp add: embedded_def)
  next
    case False
    then show ?thesis using embedLoop_ok[of docs generate] assms(6) by (simp add: embedded_def)
  qed
  then obtain em where em: "embedded = Inr em" "map lineOf em = map lineOf docs" by blast
  have "\<forall>d \<in> set em. flatMetadata (doc_metadata d)"
  proof
    fix d assume "d \<in> set em"
    then obtain i where i: "i < length em" "em ! i = d" by (auto simp: in_set_conv_nth)
    then have "lineOf d = lineOf (docs ! i)" "i < length docs"
      using em(2) by (metis length_map nth_map)+
    then show "flatMetadata (doc_metadata d)" using assms(6) lineOf_flat[of d "docs ! i"] by auto
  qed
  from sanitizeAll_ok[OF this, of f] obtain entries where
    en: "sanitizeAll f em = Inr entries" "map (\<lambda>e. lineOf (documentOf e)) entries = map lineOf em"
    by blast
  have "addDocuments f docs c w =
            (Inr (), c, w\<lparr>collections := (collections w)(name \<mapsto>
               foldl (\<lambda>acc e. upsert e acc) existing entries)\<rparr>)"
    using assms(1-5) False em(1) en(1)
    by (auto simp: addDocuments_def ensureInitialized_def embedded_def collection_add_def
        split: if_splits)
  then show ?thesis using en(2) em(2) by auto
qed

lemma slice_batch: "slice xs (int i) (int i + 100) = take 100 (drop i xs)"
  by (auto simp: slice_def Let_def min_def nat_diff_distrib' nat_add_distrib)

lemma batchLoop_ok:
  assumes "isInitialized c" "collection c = Some name" "reachable w"
    and "collections w name = Some existing"
    and "embeddingFunction c = Some generate"
    and "\<forall>d \<in> set docs. generate (doc_content d) \<noteq> None \<and> flatMetadata (doc_metadata d)"
  shows "\<exists>entries. batchLoop f docs i c w =
            (Inr (), c, w\<lparr>collections := (collections w)(name \<mapsto>
               foldl (\<lambda>acc e. upsert e acc) existing entries)\<rparr>) \<and>
           map (\<lambda>e. lineOf (documentOf e)) entries = map lineOf (drop i docs)"
  using assms(3,4)
proof (induction "length docs - i" arbitrary: i w existing rule: less_induct)
  case less
  show ?case
  proof (cases "i < length docs")
    case False
    have "(collections w)(name \<mapsto> existing) = collections w" using less.prems(2) by auto
    then show ?thesis using False
      by (intro exI[of _ "[]"]) (simp add: batchLoop.simps)
  next
    case True
    have sub: "\<forall>d \<in> set (take 100 (drop i docs)).
        generate (doc_content d) \<noteq> None \<and> flatMetadata (doc_metadata d)"
      using assms(6) by (meson in_set_dropD in_set_takeD)
    from addDocuments_ok[OF assms(1,2) less.prems(1,2) assms(5) sub, of f]
    obtain entries1 where a: "addDocuments f (take 100 (drop i docs)) c w =
            (Inr (), c, w\<lparr>collections := (collections w)(name \<mapsto>
               foldl (\<lambda>acc e. upsert e acc) existing entries1)\<rparr>)"
      and m1: "map (\<lambda>e. lineOf (documentOf e)) entries1 = map lineOf (take 100 (drop i docs))"
      by blast
    define w1 where "w1 = w\<lparr>collections := (collections w)(name \<mapsto>
               foldl (\<lambda>acc e. upsert e acc) existing entries1)\<rparr>"
    have r1: "reachable w1" using less.prems(1) by (simp add: w1_def)
    have c1: "collections w1 name = Some (foldl (\<lambda>acc e. upsert e acc) existing entries1)"
      by (simp add: w1_def)
    have "length docs - (i + 100) < length docs - i" using True by simp
    from less.hyps[OF this r1 c1]
    obtain entries2 where b: "batchLoop f docs (i + 100) c w1 =
            (Inr (), c, w1\<lparr>collections := (collections w1)(name \<mapsto>
               foldl (\<lambda>acc e. upsert e acc)
                 (foldl (\<lambda>acc e. upsert e acc) existing entries1) entries2)\<rparr>)"
      and m2: "map (\<lambda>e. lineOf (documentOf e)) entries2 = map lineOf (drop (i + 100) docs)"
      by blast
    have run: "batchLoop f docs i c w =
            (Inr (), c, w\<lparr>collections := (collections w)(name \<mapsto>
               foldl (\<lambda>acc e. upsert e acc) existing (entries1 @ entries2))\<rparr>)"
      using True a b
      by (subst batchLoop.simps) (simp add: slice_batch w1_def)
    have "map lineOf (take 100 (drop i docs)) @ map lineOf (drop (i + 100) docs)
        = map lineOf (drop i docs)"
      by (metis add.commute append_take_drop_id drop_drop map_append)
    then have "map (\<lambda>e. lineOf (documentOf e)) (entries1 @ entries2) = map lineOf (drop i docs)"
      using m1 m2 by simp
    then show ?thesis using run by blast
  qed
qed

subsection \<open>Export, then import\<close>

lemma ensureInitialized_existing:
  assumes "reachable w" "consistent c w" "collections w (collectionName c) = Some entries"
  shows "ensureInitialized c w = (Inr (), ready c, w)"
  using assms
  by (cases "isInitialized c")
    (auto simp: ensureInitialized_def initialize_def getCollection_def consistent_def ready_def)

lemma ready_ready [simp]:
  "isInitialized (ready c)" "collection (ready c) = Some (collectionName c)"
  "collectionName (ready c) = collectionName c" "embeddingFunction (ready c) = embeddingFunction c"
  by (simp_all add: ready_def)

lemma getAllDocuments_existing:
  assumes "reachable w" "consistent c w" "collections w (collectionName c) = Some entries"
  shows "getAllDocuments None c w = (Inr (map documentOf entries), ready c, w)"
  using assms ensureInitialized_existing[OF assms]
  by (simp add: getAllDocuments_def collection_get_def)

lemma consistent_ready:
  "collections w (collectionName c) = Some entries \<Longrightarrow> consistent (ready c) w"
  by (simp add: consistent_def)

lemma ready_idem: "ready (ready c) = ready c"
  by (simp add: ready_def)

lemma getStats_existing:
  assumes "reachable w" "consistent c w" "collections w (collectionName c) = Some entries"
  shows "getStats f c w =
           (Inr (computeStats f (length entries) (take 1000 entries) (clock w (ticks w))), ready c,
            w\<lparr>ticks := ticks w + 1\<rparr>)"
  using assms ensureInitialized_existing[OF assms]
  by (simp add: getStats_def collection_get_def collection_count_def readClock_def)

lemma exportBackup_existing:
  assumes "reachable w" "consistent c w" "collections w (collectionName c) = Some entries"
  shows "exportBackup f codec outputPath c w =
           (Inr (), ready c,
            w\<lparr>ticks := ticks w + 2, files := (files w)(outputPath \<mapsto> exportText f codec w entries)\<rparr>)"
proof -
  note k = consistent_ready[OF assms(3)]
  have c3: "collections w (collectionName (ready c)) = Some entries" using assms(3) by simp
  show ?thesis
    using ensureInitialized_existing[OF assms]
      getAllDocuments_existing[OF assms(1) k c3]
      getStats_existing[OF assms(1) k c3, of f]
    by (simp add: exportBackup_def exportText_def exportHeader_def Let_def ready_idem comp_def
        readClock_def)
qed

lemma parseLoop_roundtrip:
  "\<forall>d \<in> set docs. parseDocument codec (stringifyLine codec (lineOf d)) = Some d \<Longrightarrow>
   parseLoop codec (map (\<lambda>d. stringifyLine codec (lineOf d)) docs) = Inr docs"
  by (induction docs) auto

lemma documentOf_eq:
  "lineOf (documentOf e') = lineOf (documentOf e) \<Longrightarrow> documentOf e' = documentOf e"
  by (simp add: lineOf_def documentOf_def)

lemma ready_consistent: "isInitialized c \<Longrightarrow> consistent c w \<Longrightarrow> ready c = c"
  by (simp add: consistent_def ready_def)

lemma ensureInitialized_reachable:
  assumes "reachable w" "consistent c w"
  shows "ensureInitialized c w =
           (Inr (), ready c,
            if collections w (collectionName c) = None
            then w\<lparr>collections := (collections w)(collectionName c \<mapsto> [])\<rparr> else w)"
proof (cases "isInitialized c")
  case True
  then have "collections w (collectionName c) \<noteq> None" using assms(2) by (simp add: consistent_def)
  then show ?thesis using True ready_consistent[OF True assms(2)]
    by (auto simp: ensureInitialized_def)
next
  case False
  then show ?thesis using initialize_reachable[OF False assms(1)]
    by (simp add: ensureInitialized_def)
qed

lemma js_split_export:
  assumes "CHR 0x0A \<notin> set h" "\<forall>x \<in> set xs. CHR 0x0A \<notin> set x"
  shows "js_split (h @ [CHR 0x0A] @ join_js xs [CHR 0x0A]) (CHR 0x0A) =
           h # (if xs = [] then [[]] else xs)"
  using assms by (simp add: js_split_append js_split_join)

lemma importBackup_exported:
  assumes "reachable w" "consistent c w"
    and "distinct (map stored_id entries)"
    and "embeddingFunction c = Some generate"
    and "\<forall>e \<in> set entries. generate (doc_content (documentOf e)) \<noteq> None \<and>
           flatMetadata (doc_metadata (documentOf e))"
    and "CHR 0x0A \<notin> set hline" "trim hline \<noteq> []" "parseHeader codec hline \<noteq> None"
    and "\<forall>e \<in> set entries.
           CHR 0x0A \<notin> set (stringifyLine codec (lineOf (documentOf e))) \<and>
           trim (stringifyLine codec (lineOf (documentOf e))) \<noteq> [] \<and>
           parseDocument codec (stringifyLine codec (lineOf (documentOf e))) = Some (documentOf e)"
    and "files w inputPath =
           Some (hline @ [CHR 0x0A] @
                 join_js (map (\<lambda>e. stringifyLine codec (lineOf (documentOf e))) entries) [CHR 0x0A])"
  shows "\<exists>entries'. importBackup f codec inputPath True c w =
           (Inr (), ready c, w\<lparr>collections := (collections w)(collectionName c \<mapsto> entries')\<rparr>) \<and>
           map documentOf entries' = map documentOf entries"
proof -
  define docs where "docs = map documentOf entries"
  define enc where "enc = (\<lambda>d. stringifyLine codec (lineOf d))"
  define content where "content = hline @ [CHR 0x0A] @ join_js (map enc docs) [CHR 0x0A]"
  define w0 where "w0 = (if collections w (collectionName c) = None
            then w\<lparr>collections := (collections w)(collectionName c \<mapsto> [])\<rparr> else w)"
  have ei: "ensureInitialized c w = (Inr (), ready c, w0)"
    unfolding w0_def by (rule ensureInitialized_reachable[OF assms(1,2)])
  have fl: "files w0 inputPath = Some content"
    using assms(10) by (simp add: w0_def content_def enc_def docs_def comp_def)
  have lines: "backupLines content = hline # map enc docs"
    unfolding content_def using assms(6,7,9)
    by (intro backupLines_export) (auto simp: enc_def docs_def)
  obtain header where header: "parseHeader codec hline = Some header"
    using assms(8) by auto
  have parsed: "parseLoop codec (map enc docs) = Inr docs"
    unfolding enc_def using assms(9) by (intro parseLoop_roundtrip) (auto simp: docs_def)
  define w3 where "w3 = w\<lparr>collections := (collections w)(collectionName c \<mapsto> [])\<rparr>"
  have ex0: "collections w0 (collectionName c) \<noteq> None" by (simp add: w0_def)
  have r0: "reachable w0" using assms(1) by (simp add: w0_def)
  have w30: "w0\<lparr>collections := ((collections w0)(collectionName c := None))(collectionName c \<mapsto> [])\<rparr> = w3"
    by (simp add: w0_def w3_def)
  have cleared: "(case deleteCollection (collectionName (ready c)) w0 of
                    (Inl e, w2) \<Rightarrow> (Inl e, ready c, w2)
                  | (Inr _, w2) \<Rightarrow>
                      (case createCollection (collectionName (ready c)) w2 of
                         (Inl e, w3) \<Rightarrow> (Inl e, ready c, w3)
                       | (Inr handle, w3) \<Rightarrow> (Inr (), (ready c)\<lparr>collection := Some handle\<rparr>, w3)))
      = (Inr (), ready c, w3)"
    using r0 ex0 w30
    by (simp add: deleteCollection_def createCollection_def ready_def)
  have r3: "reachable w3" using assms(1) by (simp add: w3_def)
  have c3: "collections w3 (collectionName c) = Some []" by (simp add: w3_def)
  have ok: "\<forall>d \<in> set docs. generate (doc_content d) \<noteq> None \<and> flatMetadata (doc_metadata d)"
    using assms(5) by (simp add: docs_def)
  from batchLoop_ok[of "ready c" "collectionName c" w3 "[]" generate docs f 0] r3 c3 ok assms(4)
  obtain entries' where b: "batchLoop f docs 0 (ready c) w3 =
        (Inr (), ready c, w3\<lparr>collections := (collections w3)(collectionName c \<mapsto>
           foldl (\<lambda>acc e. upsert e acc) [] entries')\<rparr>)"
    and m: "map (\<lambda>e. lineOf (documentOf e)) entries' = map lineOf docs"
    by auto
  have len: "length entries' = length entries"
    using m by (metis docs_def length_map)
  have same: "map documentOf entries' = map documentOf entries"
  proof (rule nth_equalityI)
    show "length (map documentOf entries') = length (map documentOf entries)" using len by simp
  next
    fix i assume "i < length (map documentOf entries')"
    then have i: "i < length entries'" "i < length entries" using len by simp_all
    have "lineOf (documentOf (entries' ! i)) = lineOf (documentOf (entries ! i))"
      using m i by (metis (no_types, lifting) docs_def length_map nth_map)
    then show "map documentOf entries' ! i = map documentOf entries ! i"
      using i documentOf_eq by simp
  qed
  have "map stored_id entries' = map doc_id (map documentOf entries')"
    by (simp add: documentOf_def comp_def)
  also have "\<dots> = map stored_id entries" unfolding same by (simp add: documentOf_def comp_def)
  finally have "distinct (map stored_id ([] @ entries'))" using assms(3) by simp
  then have fold: "foldl (\<lambda>acc e. upsert e acc) [] entries' = entries'"
    using foldl_upsert_distinct[of "[]" entries'] by simp
  have final: "w3\<lparr>collections := (collections w3)(collectionName c \<mapsto> entries')\<rparr>
      = w\<lparr>collections := (collections w)(collectionName c \<mapsto> entries')\<rparr>"
    by (simp add: w3_def)
  have "importBackup f codec inputPath True c w =
          (Inr (), ready c, w\<lparr>collections := (collections w)(collectionName c \<mapsto> entries')\<rparr>)"
    using ei fl lines header parsed cleared b
    by (simp add: importBackup_def Let_def fold final)
  then show ?thesis using same by auto
qed

subsection \<open>The concrete runs\<close>

lemma sample_documents:
  "map documentOf sampleEntries = [sampleDocument1, sampleDocument2]"
  by (simp add: sampleEntries_def documentOf_def sampleDocument1_def sampleDocument2_def)

lemma sample_header: "exportHeader utc_format backupWorld sampleEntries = sampleHeader"
  by (simp add: exportHeader_def computeStats_def sampleEntries_def backupWorld_def sampleWorld_def
      sampleHeader_def countUnder_def incremented_def assign_def prototypeFunctions_def
      Math_round_div_def)

lemma sample_texts:
  "CHR 0x0A \<notin> set sampleHeaderText" "CHR 0x0A \<notin> set sampleLine1" "CHR 0x0A \<notin> set sampleLine2"
  "trim sampleHeaderText \<noteq> []" "trim sampleLine1 \<noteq> []" "trim sampleLine2 \<noteq> []"
  "sampleLine1 \<noteq> sampleLine2"
  by (simp_all add: sampleHeaderText_def sampleLine1_def sampleLine2_def trim_def isWhiteSpace_def)

lemma broken_lines: \<open>backupLines brokenText = [sampleHeaderText, sampleLine1, ''{"id":"b2",'']\<close>
proof -
  have b: "trim ''   '' = []" by (simp add: trim_def isWhiteSpace_def)
  have t: \<open>trim ''{"id":"b2",'' \<noteq> []\<close> by (simp add: trim_def isWhiteSpace_def)
  have n: \<open>CHR 0x0A \<notin> set ''   ''\<close> \<open>CHR 0x0A \<notin> set ''{"id":"b2",''\<close> by simp_all
  have shape: \<open>brokenText =
      sampleHeaderText @ CHR 0x0A # (''   '' @ CHR 0x0A # (sampleLine1 @ CHR 0x0A # ''{"id":"b2",''))\<close>
    by (simp add: brokenText_def)
  have \<open>js_split brokenText (CHR 0x0A) = [sampleHeaderText, ''   '', sampleLine1, ''{"id":"b2",'']\<close>
    unfolding shape
    by (simp only: js_split_append[OF sample_texts(1)] js_split_append[OF n(1)]
        js_split_append[OF sample_texts(2)] js_split_no_separator[OF n(2)])
  then show ?thesis using b t sample_texts(4,5) by (simp add: backupLines_def)
qed


lemma sample_client:
  "collectionName sampleClient = ''project-docs''" "\<not> isInitialized sampleClient"
  "embeddingFunction sampleClient = Some sampleEmbedder"
  by (simp_all add: sampleClient_def constructor_def)

lemma sample_backupWorld:
  "reachable backupWorld" "collections backupWorld ''project-docs'' = Some sampleEntries"
  "files backupWorld = Map.empty" "ticks backupWorld = 0"
  by (simp_all add: backupWorld_def sampleWorld_def)

lemma sample_lines:
  "lineOf sampleDocument1 \<noteq> lineOf sampleDocument2"
  by (simp add: lineOf_def sampleDocument1_def sampleDocument2_def)

lemma sample_codec:
  "stringifyHeader sampleCodec sampleHeader = sampleHeaderText"
  "parseHeader sampleCodec sampleHeaderText = Some sampleHeader"
  "stringifyLine sampleCodec (lineOf sampleDocument1) = sampleLine1"
  "stringifyLine sampleCodec (lineOf sampleDocument2) = sampleLine2"
  "parseDocument sampleCodec sampleLine1 = Some sampleDocument1"
  "parseDocument sampleCodec sampleLine2 = Some sampleDocument2"
  using sample_lines sample_texts(7) by (auto simp: sampleCodec_def)

lemma sample_broken_tail: \<open>parseDocument sampleCodec ''{"id":"b2",'' = None\<close>
  by (simp add: sampleCodec_def sampleLine1_def sampleLine2_def)

subsection \<open>A malformed backup changes nothing\<close>

text \<open>
  Claim C10. \<open>importBackup\<close> reads the lines of the file that are not blank and parses
  the first as the header and every other one as a document before it clears or adds
  anything. For a file that exists: when the header or one of the other non-blank lines
  is not JSON, the call throws (\<^verbatim>\<open>SyntaxError\<close>, when the initialization at its
  start succeeded), whatever \<open>clearExisting\<close> is; the client and the environment are
  left as that initialization leaves them, which is unchanged for an initialized
  client, and in every case no file and no entry of any collection has changed. When
  all non-blank lines parse, no \<^verbatim>\<open>SyntaxError\<close> is thrown, so a blank line is never
  parsed; and a line of the file is read exactly when it is not blank.
\<close>

theorem importBackup_malformed_no_write:
  assumes "files w inputPath = Some content"
  shows "(backupLines content \<noteq> [] \<and>
          (parseHeader codec (hd (backupLines content)) = None \<or>
           (\<exists>line \<in> set (tl (backupLines content)). parseDocument codec line = None)) \<longrightarrow>
          (\<exists>e c' w'. importBackup f codec inputPath clearExisting c w = (Inl e, c', w') \<and>
             (c', w') = snd (ensureInitialized c w) \<and>
             (fst (ensureInitialized c w) = Inr () \<longrightarrow> e = SyntaxError) \<and>
             files w' = files w \<and>
             (\<forall>name. entriesOf w' name = entriesOf w name) \<and>
             (isInitialized c \<longrightarrow> c' = c \<and> w' = w))) \<and>
         (backupLines content \<noteq> [] \<and>
          parseHeader codec (hd (backupLines content)) \<noteq> None \<and>
          (\<forall>line \<in> set (tl (backupLines content)). parseDocument codec line \<noteq> None) \<longrightarrow>
          fst (importBackup f codec inputPath clearExisting c w) \<noteq> Inl SyntaxError) \<and>
         (\<forall>line \<in> set (js_split content (CHR 0x0A)).
            (line \<in> set (backupLines content)) = (trim line \<noteq> []))"
proof (intro conjI impI ballI)
  assume "backupLines content \<noteq> [] \<and>
          (parseHeader codec (hd (backupLines content)) = None \<or>
           (\<exists>line \<in> set (tl (backupLines content)). parseDocument codec line = None))"
  then show "\<exists>e c' w'. importBackup f codec inputPath clearExisting c w = (Inl e, c', w') \<and>
             (c', w') = snd (ensureInitialized c w) \<and>
             (fst (ensureInitialized c w) = Inr () \<longrightarrow> e = SyntaxError) \<and>
             files w' = files w \<and>
             (\<forall>name. entriesOf w' name = entriesOf w name) \<and>
             (isInitialized c \<longrightarrow> c' = c \<and> w' = w)"
    using importBackup_malformed[OF assms, of codec f clearExisting c] by blast
next
  assume "backupLines content \<noteq> [] \<and>
          parseHeader codec (hd (backupLines content)) \<noteq> None \<and>
          (\<forall>line \<in> set (tl (backupLines content)). parseDocument codec line \<noteq> None)"
  then show "fst (importBackup f codec inputPath clearExisting c w) \<noteq> Inl SyntaxError"
    using importBackup_wellformed_no_SyntaxError[OF assms] by blast
next
  fix line assume "line \<in> set (js_split content (CHR 0x0A))"
  then show "(line \<in> set (backupLines content)) = (trim line \<noteq> [])"
    by (auto simp: backupLines_def)
qed

theorem importBackup_malformed_no_write_witness:
  \<open>files brokenWorld ''broken.jsonl'' = Some brokenText \<and>
   backupLines brokenText = [sampleHeaderText, sampleLine1, ''{"id":"b2",''] \<and>
   parseDocument sampleCodec ''{"id":"b2",'' = None \<and>
   importBackup utc_format sampleCodec ''broken.jsonl'' True sampleClient brokenWorld =
     (Inl SyntaxError, ready sampleClient, brokenWorld) \<and>
   collections brokenWorld ''project-docs'' = Some sampleEntries\<close>
proof -
  have fl: "files brokenWorld ''broken.jsonl'' = Some brokenText" by (simp add: brokenWorld_def)
  have r: "reachable brokenWorld" using sample_backupWorld(1) by (simp add: brokenWorld_def)
  have col: "collections brokenWorld (collectionName sampleClient) = Some sampleEntries"
    using sample_backupWorld(2) sample_client(1) by (simp add: brokenWorld_def)
  have k: "consistent sampleClient brokenWorld" using sample_client(2) by (simp add: consistent_def)
  have ei: "ensureInitialized sampleClient brokenWorld = (Inr (), ready sampleClient, brokenWorld)"
    by (rule ensureInitialized_existing[OF r k col])
  have bad: \<open>backupLines brokenText \<noteq> [] \<and>
      (parseHeader sampleCodec (hd (backupLines brokenText)) = None \<or>
       (\<exists>line \<in> set (tl (backupLines brokenText)). parseDocument sampleCodec line = None))\<close>
    using sample_broken_tail by (simp add: broken_lines)
  from importBackup_malformed_no_write[OF fl, of sampleCodec utc_format True sampleClient] bad
  obtain e c' w' where
    "importBackup utc_format sampleCodec ''broken.jsonl'' True sampleClient brokenWorld = (Inl e, c', w')"
    "(c', w') = snd (ensureInitialized sampleClient brokenWorld)"
    "fst (ensureInitialized sampleClient brokenWorld) = Inr () \<longrightarrow> e = SyntaxError"
    by blast
  then have "importBackup utc_format sampleCodec ''broken.jsonl'' True sampleClient brokenWorld =
     (Inl SyntaxError, ready sampleClient, brokenWorld)"
    using ei by simp
  then show ?thesis using fl broken_lines sample_broken_tail col sample_client(1) by simp
qed

subsection \<open>Round trip\<close>

text \<open>
  The text of the backup of the sample collection; a second store, which holds that file
  and whose collection holds one other entry; and the store of the sample collection
  with the file written.
\<close>

definition sampleBackup :: string where
  "sampleBackup = sampleHeaderText @ [CHR 0x0A] @ sampleLine1 @ [CHR 0x0A] @ sampleLine2"

definition otherWorld :: world where
  "otherWorld =
     sampleWorld\<lparr>collections := [''project-docs'' \<mapsto>
         [\<lparr>stored_id = ''zz'', stored_document = Some ''old'', stored_metadata = None,
           stored_embedding = [0]\<rparr>]],
       files := [''backup.jsonl'' \<mapsto> sampleBackup]\<rparr>"

definition exportedWorld :: world where
  "exportedWorld = backupWorld\<lparr>ticks := 2, files := [''backup.jsonl'' \<mapsto> sampleBackup]\<rparr>"

lemma sample_export:
  "exportBackup utc_format sampleCodec ''backup.jsonl'' c backupWorld =
     (Inr (), ready c, exportedWorld)"
  if "collectionName c = ''project-docs''" "\<not> isInitialized c"
proof -
  have k: "consistent c backupWorld" using that(2) by (simp add: consistent_def)
  have col: "collections backupWorld (collectionName c) = Some sampleEntries"
    using sample_backupWorld(2) that(1) by simp
  have "map (\<lambda>e. stringifyLine sampleCodec (lineOf (documentOf e))) sampleEntries
        = map (\<lambda>d. stringifyLine sampleCodec (lineOf d)) (map documentOf sampleEntries)"
    by (simp add: comp_def)
  also have "\<dots> = [sampleLine1, sampleLine2]"
    unfolding sample_documents by (simp add: sample_codec)
  finally have "exportText utc_format sampleCodec backupWorld sampleEntries = sampleBackup"
    by (simp add: exportText_def sample_header sample_codec sampleBackup_def)
  then show ?thesis
    using exportBackup_existing[OF sample_backupWorld(1) k col, of utc_format sampleCodec "''backup.jsonl''"]
    by (simp add: exportedWorld_def sample_backupWorld(3,4))
qed

text \<open>
  Claim C8, as the code has it. For a reachable store and a collection that exists, with
  distinct ids and metadata that is flat and has no key \<^verbatim>\<open>__proto__\<close>, and a JSON codec
  whose output for the header and for every record of the collection is one non-blank
  line without line feed that parses back to what was printed: \<open>exportBackup\<close> writes
  the header \<^verbatim>\<open>{version, exportDate, stats}\<close>, a line feed, and the records
  \<^verbatim>\<open>{id, content, metadata}\<close> of the documents joined by line feeds, so that the first
  line of the file is the header and the lines after it are the records, one per
  document (one empty line when the collection is empty). And in every reachable store
  that holds this file, whatever its collection holds, \<open>importBackup\<close> with
  \<open>clearExisting = true\<close>, through a client whose embedding function embeds every
  document, succeeds and leaves in the collection of that client exactly entries with
  the triples of id, content and metadata that the exported collection had.
\<close>

theorem export_import_roundtrip:
  assumes "reachable w" "consistent c w"
    and "collections w (collectionName c) = Some entries"
    and "distinct (map stored_id entries)"
    and "\<forall>e \<in> set entries. flatMetadata (doc_metadata (documentOf e))"
    and "CHR 0x0A \<notin> set (stringifyHeader codec (exportHeader f w entries))"
    and "trim (stringifyHeader codec (exportHeader f w entries)) \<noteq> []"
    and "parseHeader codec (stringifyHeader codec (exportHeader f w entries)) \<noteq> None"
    and "\<forall>e \<in> set entries.
           CHR 0x0A \<notin> set (stringifyLine codec (lineOf (documentOf e))) \<and>
           trim (stringifyLine codec (lineOf (documentOf e))) \<noteq> [] \<and>
           parseDocument codec (stringifyLine codec (lineOf (documentOf e))) = Some (documentOf e)"
    and "reachable w2" "consistent c2 w2"
    and "embeddingFunction c2 = Some generate"
    and "\<forall>e \<in> set entries. generate (doc_content (documentOf e)) \<noteq> None"
    and "files w2 path = files (snd (snd (exportBackup f codec path c w))) path"
  shows "\<exists>backup entries'.
           backup =
             stringifyHeader codec
               \<lparr>version = ''1.0'', exportDate = clock w (ticks w + 1),
                stats = computeStats f (length entries) (take 1000 entries) (clock w (ticks w))\<rparr>
             @ [CHR 0x0A] @
             join_js (map (\<lambda>e. stringifyLine codec (lineOf (documentOf e))) entries) [CHR 0x0A] \<and>
           exportBackup f codec path c w =
             (Inr (), ready c, w\<lparr>ticks := ticks w + 2, files := (files w)(path \<mapsto> backup)\<rparr>) \<and>
           js_split backup (CHR 0x0A) =
             stringifyHeader codec (exportHeader f w entries) #
             (if entries = [] then [[]]
              else map (\<lambda>e. stringifyLine codec (lineOf (documentOf e))) entries) \<and>
           backupLines backup =
             stringifyHeader codec (exportHeader f w entries) #
             map (\<lambda>e. stringifyLine codec (lineOf (documentOf e))) entries \<and>
           getAllDocuments None c w = (Inr (map documentOf entries), ready c, w) \<and>
           importBackup f codec path True c2 w2 =
             (Inr (), ready c2,
              w2\<lparr>collections := (collections w2)(collectionName c2 \<mapsto> entries')\<rparr>) \<and>
           getAllDocuments None (ready c2)
               (w2\<lparr>collections := (collections w2)(collectionName c2 \<mapsto> entries')\<rparr>) =
             (Inr (map documentOf entries), ready c2,
              w2\<lparr>collections := (collections w2)(collectionName c2 \<mapsto> entries')\<rparr>) \<and>
           set (map (\<lambda>e. lineOf (documentOf e)) entries') =
             set (map (\<lambda>e. lineOf (documentOf e)) entries)"
proof -
  define hline where "hline = stringifyHeader codec (exportHeader f w entries)"
  define recs where "recs = map (\<lambda>e. stringifyLine codec (lineOf (documentOf e))) entries"
  define backup where "backup = hline @ [CHR 0x0A] @ join_js recs [CHR 0x0A]"
  have bt: "backup = exportText f codec w entries"
    by (simp add: backup_def exportText_def hline_def recs_def)
  have shape: "backup =
             stringifyHeader codec
               \<lparr>version = ''1.0'', exportDate = clock w (ticks w + 1),
                stats = computeStats f (length entries) (take 1000 entries) (clock w (ticks w))\<rparr>
             @ [CHR 0x0A] @
             join_js (map (\<lambda>e. stringifyLine codec (lineOf (documentOf e))) entries) [CHR 0x0A]"
    by (simp add: backup_def hline_def recs_def exportHeader_def)
  have ex: "exportBackup f codec path c w =
      (Inr (), ready c, w\<lparr>ticks := ticks w + 2, files := (files w)(path \<mapsto> backup)\<rparr>)"
    unfolding bt by (rule exportBackup_existing[OF assms(1-3)])
  have nl: "CHR 0x0A \<notin> set hline" "trim hline \<noteq> []" "parseHeader codec hline \<noteq> None"
    using assms(6,7,8) by (simp_all add: hline_def)
  have rl: "\<forall>x \<in> set recs. CHR 0x0A \<notin> set x \<and> trim x \<noteq> []"
    using assms(9) by (auto simp: recs_def)
  have split: "js_split backup (CHR 0x0A) = hline # (if recs = [] then [[]] else recs)"
    unfolding backup_def using nl(1) rl by (intro js_split_export) auto
  have lines: "backupLines backup = hline # recs"
    unfolding backup_def using nl(1,2) rl by (intro backupLines_export) auto
  have before: "getAllDocuments None c w = (Inr (map documentOf entries), ready c, w)"
    by (rule getAllDocuments_existing[OF assms(1-3)])
  have f2: "files w2 path = Some (hline @ [CHR 0x0A] @
        join_js (map (\<lambda>e. stringifyLine codec (lineOf (documentOf e))) entries) [CHR 0x0A])"
    using assms(14) ex by (simp add: backup_def recs_def)
  have both: "\<forall>e \<in> set entries. generate (doc_content (documentOf e)) \<noteq> None \<and>
           flatMetadata (doc_metadata (documentOf e))"
    using assms(5,13) by simp
  from importBackup_exported[OF assms(10,11,4,12) both nl assms(9) f2, of f]
  obtain entries' where im: "importBackup f codec path True c2 w2 =
           (Inr (), ready c2, w2\<lparr>collections := (collections w2)(collectionName c2 \<mapsto> entries')\<rparr>)"
    and same: "map documentOf entries' = map documentOf entries"
    by auto
  define w3 where "w3 = w2\<lparr>collections := (collections w2)(collectionName c2 \<mapsto> entries')\<rparr>"
  have r3: "reachable w3" using assms(10) by (simp add: w3_def)
  have c3: "collections w3 (collectionName (ready c2)) = Some entries'" by (simp add: w3_def)
  have k3: "consistent (ready c2) w3" by (rule consistent_ready[of w3 c2 entries']) (simp add: w3_def)
  have after: "getAllDocuments None (ready c2) w3 = (Inr (map documentOf entries), ready c2, w3)"
    using getAllDocuments_existing[OF r3 k3 c3] by (simp add: ready_idem same)
  have "map lineOf (map documentOf entries') = map lineOf (map documentOf entries)"
    using same by simp
  then have "map (\<lambda>e. lineOf (documentOf e)) entries' = map (\<lambda>e. lineOf (documentOf e)) entries"
    by (simp add: comp_def)
  then have sets: "set (map (\<lambda>e. lineOf (documentOf e)) entries') =
             set (map (\<lambda>e. lineOf (documentOf e)) entries)" by simp
  have split': "js_split backup (CHR 0x0A) =
             stringifyHeader codec (exportHeader f w entries) #
             (if entries = [] then [[]]
              else map (\<lambda>e. stringifyLine codec (lineOf (documentOf e))) entries)"
    using split by (simp add: hline_def recs_def)
  have lines': "backupLines backup =
             stringifyHeader codec (exportHeader f w entries) #
             map (\<lambda>e. stringifyLine codec (lineOf (documentOf e))) entries"
    using lines by (simp add: hline_def recs_def)
  note after' = after[unfolded w3_def]
  show ?thesis
    using shape ex split' lines' before im after' sets
    by (intro exI[of _ backup] exI[of _ entries'] conjI)
qed

theorem export_import_roundtrip_witness:
  "exportBackup utc_format sampleCodec ''backup.jsonl'' sampleClient backupWorld =
     (Inr (), ready sampleClient, exportedWorld) \<and>
   collections backupWorld ''project-docs'' = Some sampleEntries \<and>
   entriesOf otherWorld ''project-docs'' =
     [\<lparr>stored_id = ''zz'', stored_document = Some ''old'', stored_metadata = None,
       stored_embedding = [0]\<rparr>] \<and>
   files otherWorld ''backup.jsonl'' = files exportedWorld ''backup.jsonl'' \<and>
   (\<exists>entries'.
      importBackup utc_format sampleCodec ''backup.jsonl'' True sampleClient otherWorld =
        (Inr (), ready sampleClient,
         otherWorld\<lparr>collections := (collections otherWorld)(''project-docs'' \<mapsto> entries')\<rparr>) \<and>
      getAllDocuments None (ready sampleClient)
          (otherWorld\<lparr>collections := (collections otherWorld)(''project-docs'' \<mapsto> entries')\<rparr>) =
        (Inr [sampleDocument1, sampleDocument2], ready sampleClient,
         otherWorld\<lparr>collections := (collections otherWorld)(''project-docs'' \<mapsto> entries')\<rparr>) \<and>
      set (map (\<lambda>e. lineOf (documentOf e)) entries') = {lineOf sampleDocument1, lineOf sampleDocument2})"
proof -
  have k: "consistent sampleClient backupWorld" using sample_client(2) by (simp add: consistent_def)
  have col: "collections backupWorld (collectionName sampleClient) = Some sampleEntries"
    using sample_backupWorld(2) sample_client(1) by simp
  have d: "distinct (map stored_id sampleEntries)" by (simp add: sampleEntries_def)
  have flat: "\<forall>e \<in> set sampleEntries. flatMetadata (doc_metadata (documentOf e))"
    by (auto simp: sampleEntries_def documentOf_def flatMetadata_def isScalar_def)
  have emb: "\<forall>e \<in> set sampleEntries. sampleEmbedder (doc_content (documentOf e)) \<noteq> None"
    by (simp add: sampleEmbedder_def)
  have h1: "CHR 0x0A \<notin> set (stringifyHeader sampleCodec (exportHeader utc_format backupWorld sampleEntries))"
    and h2: "trim (stringifyHeader sampleCodec (exportHeader utc_format backupWorld sampleEntries)) \<noteq> []"
    and h3: "parseHeader sampleCodec
        (stringifyHeader sampleCodec (exportHeader utc_format backupWorld sampleEntries)) \<noteq> None"
    using sample_texts(1,4) by (simp_all add: sample_header sample_codec)
  have each: "\<forall>d \<in> set (map documentOf sampleEntries).
           CHR 0x0A \<notin> set (stringifyLine sampleCodec (lineOf d)) \<and>
           trim (stringifyLine sampleCodec (lineOf d)) \<noteq> [] \<and>
           parseDocument sampleCodec (stringifyLine sampleCodec (lineOf d)) = Some d"
    unfolding sample_documents using sample_texts by (simp add: sample_codec)
  then have ls: "\<forall>e \<in> set sampleEntries.
           CHR 0x0A \<notin> set (stringifyLine sampleCodec (lineOf (documentOf e))) \<and>
           trim (stringifyLine sampleCodec (lineOf (documentOf e))) \<noteq> [] \<and>
           parseDocument sampleCodec (stringifyLine sampleCodec (lineOf (documentOf e)))
             = Some (documentOf e)"
    by simp
  have ex: "exportBackup utc_format sampleCodec ''backup.jsonl'' sampleClient backupWorld =
     (Inr (), ready sampleClient, exportedWorld)"
    by (rule sample_export[OF sample_client(1,2)])
  have r2: "reachable otherWorld" by (simp add: otherWorld_def sampleWorld_def)
  have k2: "consistent sampleClient otherWorld" using sample_client(2) by (simp add: consistent_def)
  have others: "entriesOf otherWorld ''project-docs'' =
     [\<lparr>stored_id = ''zz'', stored_document = Some ''old'', stored_metadata = None,
       stored_embedding = [0]\<rparr>]"
    by (simp add: entriesOf_def otherWorld_def)
  have fe: "files otherWorld ''backup.jsonl'' = files exportedWorld ''backup.jsonl''"
    by (simp add: otherWorld_def exportedWorld_def)
  have f2: "files otherWorld ''backup.jsonl'' =
      files (snd (snd (exportBackup utc_format sampleCodec ''backup.jsonl'' sampleClient backupWorld)))
        ''backup.jsonl''"
    unfolding ex using fe by simp
  have tr: "set (map (\<lambda>e. lineOf (documentOf e)) sampleEntries)
      = {lineOf sampleDocument1, lineOf sampleDocument2}"
  proof -
    have "map (\<lambda>e. lineOf (documentOf e)) sampleEntries = map lineOf (map documentOf sampleEntries)"
      by (simp add: comp_def)
    then show ?thesis unfolding sample_documents by simp
  qed
  note t = export_import_roundtrip[OF sample_backupWorld(1) k col d flat h1 h2 h3 ls r2 k2
      sample_client(3) emb f2, unfolded sample_client(1) sample_documents tr]
  then obtain entries' where
    "importBackup utc_format sampleCodec ''backup.jsonl'' True sampleClient otherWorld =
        (Inr (), ready sampleClient,
         otherWorld\<lparr>collections := (collections otherWorld)(''project-docs'' \<mapsto> entries')\<rparr>)"
    "getAllDocuments None (ready sampleClient)
          (otherWorld\<lparr>collections := (collections otherWorld)(''project-docs'' \<mapsto> entries')\<rparr>) =
        (Inr [sampleDocument1, sampleDocument2], ready sampleClient,
         otherWorld\<lparr>collections := (collections otherWorld)(''project-docs'' \<mapsto> entries')\<rparr>)"
    "set (map (\<lambda>e. lineOf (documentOf e)) entries') = {lineOf sampleDocument1, lineOf sampleDocument2}"
    by (elim exE conjE) (rule that)
  then have im: "\<exists>entries'.
      importBackup utc_format sampleCodec ''backup.jsonl'' True sampleClient otherWorld =
        (Inr (), ready sampleClient,
         otherWorld\<lparr>collections := (collections otherWorld)(''project-docs'' \<mapsto> entries')\<rparr>) \<and>
      getAllDocuments None (ready sampleClient)
          (otherWorld\<lparr>collections := (collections otherWorld)(''project-docs'' \<mapsto> entries')\<rparr>) =
        (Inr [sampleDocument1, sampleDocument2], ready sampleClient,
         otherWorld\<lparr>collections := (collections otherWorld)(''project-docs'' \<mapsto> entries')\<rparr>) \<and>
      set (map (\<lambda>e. lineOf (documentOf e)) entries') = {lineOf sampleDocument1, lineOf sampleDocument2}"
    by (intro exI[of _ entries'] conjI)
  show ?thesis by (intro conjI ex sample_backupWorld(2) others fe im)
qed

text \<open>
  The sample collection, exported and imported again by a client without embedding
  function: the export succeeds; the import deletes the collection, creates it again
  and throws when it adds the first batch, so that the collection is left empty.
\<close>

theorem export_import_without_embedding_counterexample:
  "exportBackup utc_format sampleCodec ''backup.jsonl'' plainClient backupWorld =
     (Inr (), ready plainClient, exportedWorld) \<and>
   entriesOf exportedWorld ''project-docs'' = sampleEntries \<and>
   importBackup utc_format sampleCodec ''backup.jsonl'' True (ready plainClient) exportedWorld =
     (Inl (Error ''Embeddings required but no embedding function provided''), ready plainClient,
      exportedWorld\<lparr>collections := [''project-docs'' \<mapsto> []]\<rparr>) \<and>
   entriesOf (exportedWorld\<lparr>collections := [''project-docs'' \<mapsto> []]\<rparr>) ''project-docs'' = []"
proof -
  have pc: "collectionName plainClient = ''project-docs''" "\<not> isInitialized plainClient"
    "embeddingFunction plainClient = None"
    by (simp_all add: plainClient_def constructor_def)
  have ex: "exportBackup utc_format sampleCodec ''backup.jsonl'' plainClient backupWorld =
     (Inr (), ready plainClient, exportedWorld)"
    by (rule sample_export[OF pc(1,2)])
  have en: "entriesOf exportedWorld ''project-docs'' = sampleEntries"
    by (simp add: entriesOf_def exportedWorld_def sample_backupWorld(2))
  have ei: "ensureInitialized (ready plainClient) w = (Inr (), ready plainClient, w)" for w
    by (simp add: ensureInitialized_def)
  have fl: "files exportedWorld ''backup.jsonl'' = Some sampleBackup"
    by (simp add: exportedWorld_def)
  have "backupLines (sampleHeaderText @ [CHR 0x0A] @ join_js [sampleLine1, sampleLine2] [CHR 0x0A])
      = sampleHeaderText # [sampleLine1, sampleLine2]"
    using sample_texts by (intro backupLines_export) auto
  then have lines: "backupLines sampleBackup = [sampleHeaderText, sampleLine1, sampleLine2]"
    by (simp add: sampleBackup_def)
  have parsed: "parseLoop sampleCodec [sampleLine1, sampleLine2] = Inr [sampleDocument1, sampleDocument2]"
    by (simp add: sample_codec)
  define w3 where "w3 = exportedWorld\<lparr>collections := [''project-docs'' \<mapsto> []]\<rparr>"
  have cols: "collections exportedWorld = [''project-docs'' \<mapsto> sampleEntries]"
    by (simp add: exportedWorld_def backupWorld_def)
  have r: "reachable exportedWorld" using sample_backupWorld(1) by (simp add: exportedWorld_def)
  have cleared: "deleteCollection ''project-docs'' exportedWorld =
      (Inr (), exportedWorld\<lparr>collections := Map.empty\<rparr>)"
    "createCollection ''project-docs'' (exportedWorld\<lparr>collections := Map.empty\<rparr>) =
      (Inr ''project-docs'', w3)"
    using r by (simp_all add: deleteCollection_def createCollection_def cols w3_def)
  have noemb: "doc_embedding sampleDocument1 = None" "doc_embedding sampleDocument2 = None"
    by (simp_all add: sampleDocument1_def sampleDocument2_def)
  have add: "addDocuments utc_format [sampleDocument1, sampleDocument2] (ready plainClient) w3 =
      (Inl (Error ''Embeddings required but no embedding function provided''), ready plainClient, w3)"
    by (simp add: addDocuments_def ei noemb pc(3))
  have batch: "batchLoop utc_format [sampleDocument1, sampleDocument2] 0 (ready plainClient) w3 =
      (Inl (Error ''Embeddings required but no embedding function provided''), ready plainClient, w3)"
    by (subst batchLoop.simps) (simp add: slice_batch[of _ 0, simplified] add)
  have rp: "(ready plainClient)\<lparr>collection := Some ''project-docs''\<rparr> = ready plainClient"
    by (simp add: ready_def pc(1))
  have im: "importBackup utc_format sampleCodec ''backup.jsonl'' True (ready plainClient) exportedWorld =
     (Inl (Error ''Embeddings required but no embedding function provided''), ready plainClient, w3)"
    by (simp add: importBackup_def ei fl lines sample_codec parsed pc(1) cleared rp batch Let_def)
  have empty: "entriesOf w3 ''project-docs'' = []" by (simp add: entriesOf_def w3_def)
  show ?thesis using ex en im empty unfolding w3_def by (intro conjI)
qed

end
